theory Spec2Isabelle
  imports
    Main
    "HOL-Library.AList"
    "HOL-Library.Char_ord"
    "HOL-Library.List_Lexorder"
begin

section \<open>Finite automata: loading, simulation and conversion (automata.py)\<close>

subsection \<open>Python values\<close>

text \<open>
  A Python dictionary is an association list in insertion order with distinct keys:
  \<open>map_of\<close> is the lookup \<open>d[k]\<close> / \<open>k in d\<close>, and \<open>AList.update\<close> is the
  assignment \<open>d[k] = v\<close> (it replaces the value of a present key in place and appends an
  absent key at the end, as Python does).

  The value stored under \<open>transitions[origin][symbol]\<close> is a Python sequence: a list
  of state names where \<open>load_automata\<close> builds it, a single string where
  \<open>convert_to_dfa\<close> builds it. Iterating over a string, or indexing it, yields
  one-character strings.
\<close>

datatype pyseq = PList "string list" | PStr string

fun elems :: "pyseq \<Rightarrow> string list" where
  "elems (PList xs) = xs"
| "elems (PStr s) = map (\<lambda>c. [c]) s"

type_synonym row = "(string \<times> pyseq) list"

type_synonym table = "(string \<times> row) list"

record automaton =
  alphabet :: "string list"
  states :: "string list"
  final_states :: "string list"
  initial_state :: string
  transitions :: table

text \<open>
  The messages of the \<open>ValueError\<close>s raised by \<open>load_automata\<close>, in the order of the
  source: "Formato de transicao invalido.", "Estado inicial nao esta presente no conjunto
  de estados.", "Estado final nao esta presente no conjunto de estados.", "Transicao parte
  de estado que nao esta no conjunto de estados.", "Transicao utiliza simbolo invalido.",
  "Transicao leva a estado que nao esta no conjunto de estados.", and the prefix
  "Erro ao ler o arquivo: " that the handler of line 75 puts before each of them.
\<close>

datatype message =
    Formato_de_transicao_invalido
  | Estado_inicial_ausente
  | Estado_final_ausente
  | Transicao_parte_de_estado_ausente
  | Transicao_utiliza_simbolo_invalido
  | Transicao_leva_a_estado_ausente
  | Erro_ao_ler_o_arquivo message

datatype error = ValueError message | IndexError | AttributeError

subsection \<open>\<open>load_automata\<close>\<close>

text \<open>
  Opening the file and cutting its lines into tokens (\<open>readline\<close>, \<open>strip\<close>,
  \<open>split\<close>) are library calls; the model starts from their results. The first three
  lines are token lists, the fourth is only stripped, and every further line is the token
  list \<open>parts\<close> of lines 41 and 42.
\<close>

record source_file =
  alphabet_line :: "string list"
  states_line :: "string list"
  final_states_line :: "string list"
  initial_state_line :: string
  transition_lines :: "string list list"

text \<open>\<open>x.append(destination)\<close>: only a list has the method.\<close>

fun append_destination :: "pyseq \<Rightarrow> string \<Rightarrow> error + pyseq" where
  "append_destination (PList ds) destination = Inr (PList (ds @ [destination]))"
| "append_destination (PStr s) destination = Inl AttributeError"

text \<open>Lines 42 to 50: one transition line added to the dictionary of dictionaries.\<close>

fun read_transition :: "table \<Rightarrow> string list \<Rightarrow> error + table" where
  "read_transition ts [origin, symbol, destination] =
     (let r = (case map_of ts origin of None \<Rightarrow> [] | Some r0 \<Rightarrow> r0);
          v = (case map_of r symbol of None \<Rightarrow> PList [] | Some v0 \<Rightarrow> v0)
      in case append_destination v destination of
           Inl e \<Rightarrow> Inl e
         | Inr v' \<Rightarrow> Inr (AList.update origin (AList.update symbol v' r) ts))"
| "read_transition ts parts = Inl (ValueError Formato_de_transicao_invalido)"

text \<open>Lines 41 to 50: the loop over the remaining lines of the file.\<close>

fun read_transitions :: "string list list \<Rightarrow> table \<Rightarrow> error + table" where
  "read_transitions [] ts = Inr ts"
| "read_transitions (parts # rest) ts =
     (case read_transition ts parts of
        Inl e \<Rightarrow> Inl e
      | Inr ts' \<Rightarrow> read_transitions rest ts')"

text \<open>Lines 54 to 56.\<close>

fun check_final_states :: "string list \<Rightarrow> string list \<Rightarrow> error option" where
  "check_final_states sts [] = None"
| "check_final_states sts (final_state # rest) =
     (if final_state \<notin> set sts then Some (ValueError Estado_final_ausente)
      else check_final_states sts rest)"

text \<open>Lines 63 to 65.\<close>

fun check_destinations :: "string list \<Rightarrow> string list \<Rightarrow> error option" where
  "check_destinations sts [] = None"
| "check_destinations sts (destination # rest) =
     (if destination \<notin> set sts then Some (ValueError Transicao_leva_a_estado_ausente)
      else check_destinations sts rest)"

text \<open>Lines 60 to 65: the symbols of one origin, in insertion order.\<close>

fun check_symbols :: "string list \<Rightarrow> string list \<Rightarrow> row \<Rightarrow> error option" where
  "check_symbols alph sts [] = None"
| "check_symbols alph sts ((symbol, v) # rest) =
     (if symbol \<notin> set alph then Some (ValueError Transicao_utiliza_simbolo_invalido)
      else case check_destinations sts (elems v) of
             Some e \<Rightarrow> Some e
           | None \<Rightarrow> check_symbols alph sts rest)"

text \<open>Lines 57 to 65: the origins, in insertion order.\<close>

fun check_origins :: "string list \<Rightarrow> string list \<Rightarrow> table \<Rightarrow> error option" where
  "check_origins alph sts [] = None"
| "check_origins alph sts ((origin, r) # rest) =
     (if origin \<notin> set sts then Some (ValueError Transicao_parte_de_estado_ausente)
      else case check_symbols alph sts r of
             Some e \<Rightarrow> Some e
           | None \<Rightarrow> check_origins alph sts rest)"

text \<open>Lines 35 to 73: the body of the \<open>try\<close>.\<close>

definition load_body :: "source_file \<Rightarrow> error + automaton" where
  "load_body f =
     (case read_transitions (transition_lines f) [] of
        Inl e \<Rightarrow> Inl e
      | Inr ts \<Rightarrow>
          if initial_state_line f \<notin> set (states_line f)
          then Inl (ValueError Estado_inicial_ausente)
          else (case check_final_states (states_line f) (final_states_line f) of
                  Some e \<Rightarrow> Inl e
                | None \<Rightarrow>
                    (case check_origins (alphabet_line f) (states_line f) ts of
                       Some e \<Rightarrow> Inl e
                     | None \<Rightarrow>
                         Inr \<lparr>alphabet = alphabet_line f,
                              states = states_line f,
                              final_states = final_states_line f,
                              initial_state = initial_state_line f,
                              transitions = ts\<rparr>)))"

text \<open>Lines 74 and 75: a \<open>ValueError\<close> is raised again with the prefix; nothing else is caught.\<close>

definition load_automata :: "source_file \<Rightarrow> error + automaton" where
  "load_automata f =
     (case load_body f of
        Inl (ValueError m) \<Rightarrow> Inl (ValueError (Erro_ao_ler_o_arquivo m))
      | Inl e \<Rightarrow> Inl e
      | Inr a \<Rightarrow> Inr a)"

subsection \<open>\<open>process\<close>\<close>

text \<open>
  A word is the sequence of symbols that \<open>for symbol in word\<close> yields. The local
  variables of the loop over the words are a record; the body of the loop over the symbols
  says how the loop goes on.
\<close>

record locals =
  current_state :: string
  is_valid :: bool
  results :: "string list"

datatype control = Continue locals | Break locals | Raise error

text \<open>\<open>x[0]\<close> on a Python sequence.\<close>

definition index0 :: "pyseq \<Rightarrow> error + string" where
  "index0 v = (case elems v of [] \<Rightarrow> Inl IndexError | x # _ \<Rightarrow> Inr x)"

text \<open>Lines 89 to 99: the body of the loop over the symbols.\<close>

definition symbol_body :: "automaton \<Rightarrow> string \<Rightarrow> locals \<Rightarrow> control" where
  "symbol_body automata symbol l =
     (if symbol \<notin> set (alphabet automata)
      then Break (l\<lparr>results := results l @ [''INVALIDA''], is_valid := False\<rparr>)
      else case map_of (transitions automata) (current_state l) of
             None \<Rightarrow> Break (l\<lparr>results := results l @ [''REJEITA''], is_valid := False\<rparr>)
           | Some r \<Rightarrow>
               (case map_of r symbol of
                  None \<Rightarrow> Break (l\<lparr>results := results l @ [''REJEITA''], is_valid := False\<rparr>)
                | Some v \<Rightarrow>
                    (case index0 v of
                       Inl e \<Rightarrow> Raise e
                     | Inr d \<Rightarrow> Continue (l\<lparr>current_state := d\<rparr>))))"

text \<open>Lines 88 to 99: the loop over the symbols of one word.\<close>

fun for_symbols :: "automaton \<Rightarrow> string list \<Rightarrow> locals \<Rightarrow> error + locals" where
  "for_symbols automata [] l = Inr l"
| "for_symbols automata (symbol # word) l =
     (case symbol_body automata symbol l of
        Continue l' \<Rightarrow> for_symbols automata word l'
      | Break l' \<Rightarrow> Inr l'
      | Raise e \<Rightarrow> Inl e)"

text \<open>Lines 85 to 105: the body of the loop over the words; it returns \<open>results\<close>.\<close>

definition word_body :: "automaton \<Rightarrow> string list \<Rightarrow> string list \<Rightarrow> error + string list" where
  "word_body automata word res =
     (case for_symbols automata word
             \<lparr>current_state = initial_state automata, is_valid = True, results = res\<rparr> of
        Inl e \<Rightarrow> Inl e
      | Inr l \<Rightarrow>
          Inr (if is_valid l
               then (if current_state l \<in> set (final_states automata)
                     then results l @ [''ACEITA'']
                     else results l @ [''REJEITA''])
               else results l))"

fun for_words :: "automaton \<Rightarrow> string list list \<Rightarrow> string list \<Rightarrow> error + string list" where
  "for_words automata [] res = Inr res"
| "for_words automata (word # words) res =
     (case word_body automata word res of
        Inl e \<Rightarrow> Inl e
      | Inr res' \<Rightarrow> for_words automata words res')"

definition process :: "automaton \<Rightarrow> string list list \<Rightarrow> error + string list" where
  "process automata words = for_words automata words []"

subsection \<open>\<open>convert_to_dfa\<close>\<close>

text \<open>The decimal numeral that the f-string of line 120 prints for the counter.\<close>

function str_nat :: "nat \<Rightarrow> string" where
  "str_nat n =
     (if n < 10 then [''0123456789'' ! n]
      else str_nat (n div 10) @ [''0123456789'' ! (n mod 10)])"
  by pat_completeness auto
termination
  by (relation "measure id") auto

declare str_nat.simps [simp del]

text \<open>\<open>','.join(xs)\<close> and \<open>s.split(',')\<close>.\<close>

fun join_comma :: "string list \<Rightarrow> string" where
  "join_comma [] = []"
| "join_comma [x] = x"
| "join_comma (x # y # ys) = x @ '','' @ join_comma (y # ys)"

fun split_comma :: "string \<Rightarrow> string list" where
  "split_comma [] = [[]]"
| "split_comma (c # cs) =
     (if c = CHR '','' then [] # split_comma cs
      else (c # hd (split_comma cs)) # tl (split_comma cs))"

text \<open>
  The variables that the loop of \<open>convert_to_dfa\<close> and the closure \<open>get_state_name\<close>
  change. \<open>states_to_process\<close> is a Python list used as a stack: \<open>pop()\<close> takes its
  last element and \<open>append\<close> adds one at its end. The two Python sets are sets.
\<close>

record conversion =
  new_states :: "(string \<times> string) list"
  state_counter :: nat
  dfa_transitions :: table
  dfa_final_states :: "string set"
  states_to_process :: "string list"
  processed_states :: "string set"

text \<open>
  Lines 116 to 122. \<open>states_set\<close> is the list of the elements of the argument, a list
  at line 124 and a set at line 145; \<open>sorted\<close> puts them in the order of the strings.
\<close>

definition get_state_name :: "string list \<Rightarrow> conversion \<Rightarrow> string \<times> conversion" where
  "get_state_name states_set c =
     (let name = join_comma (sort states_set)
      in case map_of (new_states c) name of
           None \<Rightarrow>
             (''q'' @ str_nat (state_counter c),
              c\<lparr>new_states :=
                   AList.update name (''q'' @ str_nat (state_counter c)) (new_states c),
                state_counter := state_counter c + 1\<rparr>)
         | Some ident \<Rightarrow> (ident, c))"

text \<open>Lines 139 to 142: the destinations gathered for one symbol.\<close>

fun gather :: "automaton \<Rightarrow> string \<Rightarrow> string list \<Rightarrow> string set \<Rightarrow> string set" where
  "gather automata symbol [] next_states = next_states"
| "gather automata symbol (state # rest) next_states =
     gather automata symbol rest
       (case map_of (transitions automata) state of
          None \<Rightarrow> next_states
        | Some r \<Rightarrow>
            (case map_of r symbol of
               None \<Rightarrow> next_states
             | Some v \<Rightarrow> next_states \<union> set (elems v)))"

text \<open>
  Lines 139 to 148: the body of the loop over the alphabet. Line 136 has stored a
  dictionary under \<open>current\<close> before the loop starts and nothing removes it, so the
  lookup \<open>dfa_transitions[current]\<close> of line 146 finds it (lemma
  \<open>symbol_step_keeps_current\<close> below).
\<close>

definition symbol_step ::
  "automaton \<Rightarrow> string \<Rightarrow> string list \<Rightarrow> string \<Rightarrow> conversion \<Rightarrow> conversion" where
  "symbol_step automata current current_states symbol c =
     (let next_states = gather automata symbol current_states {}
      in if next_states \<noteq> {}
         then
           (let (next_state_name, c1) = get_state_name (sorted_list_of_set next_states) c;
                r = (case map_of (dfa_transitions c1) current of None \<Rightarrow> [] | Some r0 \<Rightarrow> r0);
                c2 = c1\<lparr>dfa_transitions :=
                          AList.update current
                            (AList.update symbol (PStr next_state_name) r)
                            (dfa_transitions c1)\<rparr>
            in if next_state_name \<notin> processed_states c2
               then c2\<lparr>states_to_process := states_to_process c2 @ [next_state_name]\<rparr>
               else c2)
         else c)"

text \<open>Lines 129 to 148: the body of the \<open>while\<close> loop.\<close>

definition while_body :: "automaton \<Rightarrow> conversion \<Rightarrow> conversion" where
  "while_body automata c =
     (let current = last (states_to_process c);
          c1 = c\<lparr>states_to_process := butlast (states_to_process c),
                 processed_states := insert current (processed_states c)\<rparr>;
          c2 = (if \<exists>state \<in> set (split_comma current). state \<in> set (final_states automata)
                then c1\<lparr>dfa_final_states := insert current (dfa_final_states c1)\<rparr>
                else c1);
          current_states = split_comma current;
          c3 = c2\<lparr>dfa_transitions := AList.update current [] (dfa_transitions c2)\<rparr>
      in fold (symbol_step automata current current_states) (alphabet automata) c3)"

text \<open>Lines 128 to 148. The result is \<open>None\<close> when the loop never ends.\<close>

partial_function (option) while_loop :: "automaton \<Rightarrow> conversion \<Rightarrow> conversion option" where
  "while_loop automata c =
     (if states_to_process c = [] then Some c
      else while_loop automata (while_body automata c))"

declare while_loop.simps [code]

text \<open>Lines 111 to 126: the state in which the loop is entered, with the seeded identifier.\<close>

definition seed :: "automaton \<Rightarrow> string \<times> conversion" where
  "seed automata =
     (let (ident, c) =
            get_state_name [initial_state automata]
              \<lparr>new_states = [], state_counter = 0, dfa_transitions = [],
               dfa_final_states = {}, states_to_process = [], processed_states = {}\<rparr>
      in (ident, c\<lparr>states_to_process := [ident]\<rparr>))"

text \<open>
  Lines 109 to 156. \<open>list(dfa_final_states)\<close> lists a set in an order that Python does
  not fix; the model lists it in the order of the strings, and only the membership in
  \<open>final_states\<close> is ever read.
\<close>

definition convert_to_dfa :: "automaton \<Rightarrow> automaton option" where
  "convert_to_dfa automata =
     (case while_loop automata (snd (seed automata)) of
        None \<Rightarrow> None
      | Some c \<Rightarrow>
          Some \<lparr>alphabet = alphabet automata,
                states = map snd (new_states c),
                final_states = sorted_list_of_set (dfa_final_states c),
                initial_state = fst (seed automata),
                transitions = dfa_transitions c\<rparr>)"

subsection \<open>The simulation as the specification words it\<close>

text \<open>
  The three outcomes, and the classification of one word as section 4.2 of the
  specification describes it: an unknown symbol gives \<open>INVALID\<close>, a missing transition
  gives \<open>REJECTED\<close>, otherwise the run moves to the first destination; at the end of
  the word the current state decides. This definition follows the specification, not the
  source, and is compared with \<open>process\<close> below.
\<close>

datatype outcome = ACCEPTED | REJECTED | INVALID

fun outcome_text :: "outcome \<Rightarrow> string" where
  "outcome_text ACCEPTED = ''ACEITA''"
| "outcome_text REJECTED = ''REJEITA''"
| "outcome_text INVALID = ''INVALIDA''"

definition defined_transition :: "automaton \<Rightarrow> string \<Rightarrow> string \<Rightarrow> pyseq option" where
  "defined_transition a q x =
     (case map_of (transitions a) q of None \<Rightarrow> None | Some r \<Rightarrow> map_of r x)"

fun classify_from :: "automaton \<Rightarrow> string \<Rightarrow> string list \<Rightarrow> outcome" where
  "classify_from a q [] = (if q \<in> set (final_states a) then ACCEPTED else REJECTED)"
| "classify_from a q (x # w) =
     (if x \<notin> set (alphabet a) then INVALID
      else case defined_transition a q x of
             None \<Rightarrow> REJECTED
           | Some v \<Rightarrow> classify_from a (hd (elems v)) w)"

definition classify :: "automaton \<Rightarrow> string list \<Rightarrow> outcome" where
  "classify a w = classify_from a (initial_state a) w"

text \<open>Every transition entry holds a non-empty sequence of destinations.\<close>

definition nonempty_destinations :: "automaton \<Rightarrow> bool" where
  "nonempty_destinations a \<longleftrightarrow>
     (\<forall>(origin, r) \<in> set (transitions a). \<forall>(symbol, v) \<in> set r. elems v \<noteq> [])"

text \<open>Lines 101 to 105, on the locals that the loop over the symbols leaves.\<close>

definition finish :: "automaton \<Rightarrow> locals \<Rightarrow> string list" where
  "finish a l =
     (if is_valid l
      then (if current_state l \<in> set (final_states a)
            then results l @ [''ACEITA'']
            else results l @ [''REJEITA''])
      else results l)"

subsection \<open>The structural invariants\<close>

text \<open>
  The destinations that a transition entry names: the members of a list, or the single
  state name that \<open>convert_to_dfa\<close> stores as a string.
\<close>

fun destinations :: "pyseq \<Rightarrow> string list" where
  "destinations (PList ds) = ds"
| "destinations (PStr d) = [d]"

text \<open>
  The four invariants of section 3 of the specification: the initial state and the final
  states are states, every origin and every destination of a transition is a state, and
  every symbol of a transition is in the alphabet.
\<close>

definition invariants :: "automaton \<Rightarrow> bool" where
  "invariants a \<longleftrightarrow>
     initial_state a \<in> set (states a) \<and>
     set (final_states a) \<subseteq> set (states a) \<and>
     (\<forall>(origin, r) \<in> set (transitions a).
        origin \<in> set (states a) \<and>
        (\<forall>(symbol, v) \<in> set r.
           symbol \<in> set (alphabet a) \<and> set (destinations v) \<subseteq> set (states a)))"

text \<open>A transition table gives every pair of a state and a symbol at most one destination.\<close>

definition at_most_one_destination :: "automaton \<Rightarrow> bool" where
  "at_most_one_destination d \<longleftrightarrow>
     distinct (map fst (transitions d)) \<and>
     (\<forall>(origin, r) \<in> set (transitions d).
        distinct (map fst r) \<and> (\<forall>(symbol, v) \<in> set r. length (destinations v) \<le> 1))"

text \<open>The origins, symbols and destinations that occur in a transition table.\<close>

definition origins_of :: "table \<Rightarrow> string set" where
  "origins_of ts = fst ` set ts"

definition symbols_of :: "table \<Rightarrow> string set" where
  "symbols_of ts = {a. \<exists>origin r v. (origin, r) \<in> set ts \<and> (a, v) \<in> set r}"

definition destinations_of :: "table \<Rightarrow> string set" where
  "destinations_of ts =
     {d. \<exists>origin r a v. (origin, r) \<in> set ts \<and> (a, v) \<in> set r \<and> d \<in> set (elems v)}"

text \<open>
  What the loop of lines 41 to 50 keeps true of the table it builds: keys are not
  repeated, and every entry is a list.
\<close>

definition loaded :: "table \<Rightarrow> bool" where
  "loaded ts \<longleftrightarrow>
     distinct (map fst ts) \<and>
     (\<forall>(origin, r) \<in> set ts. distinct (map fst r) \<and> (\<forall>(a, v) \<in> set r. \<exists>ds. v = PList ds))"

text \<open>The origins, symbols and destinations that the three-token lines of a file name.\<close>

definition line_origins :: "string list list \<Rightarrow> string set" where
  "line_origins ls = {origin. \<exists>symbol destination. [origin, symbol, destination] \<in> set ls}"

definition line_symbols :: "string list list \<Rightarrow> string set" where
  "line_symbols ls = {symbol. \<exists>origin destination. [origin, symbol, destination] \<in> set ls}"

definition line_destinations :: "string list list \<Rightarrow> string set" where
  "line_destinations ls = {destination. \<exists>origin symbol. [origin, symbol, destination] \<in> set ls}"

text \<open>The four invariants, read on the tokens of the file.\<close>

definition structurally_valid :: "source_file \<Rightarrow> bool" where
  "structurally_valid f \<longleftrightarrow>
     initial_state_line f \<in> set (states_line f) \<and>
     set (final_states_line f) \<subseteq> set (states_line f) \<and>
     line_origins (transition_lines f) \<subseteq> set (states_line f) \<and>
     line_destinations (transition_lines f) \<subseteq> set (states_line f) \<and>
     line_symbols (transition_lines f) \<subseteq> set (alphabet_line f)"

subsection \<open>The invariant and the measure of the conversion loop\<close>

text \<open>The identifiers minted so far: the values of \<open>new_states\<close>.\<close>

definition identifiers :: "conversion \<Rightarrow> string set" where
  "identifiers c = snd ` set (new_states c)"

text \<open>
  The canonical keys that a conversion can ever form: the key of the initial state, and
  the keys of the sets of destinations of the input automaton. They are finitely many.
\<close>

definition names :: "automaton \<Rightarrow> string set" where
  "names a =
     insert (join_comma (sort [initial_state a]))
       ((\<lambda>S. join_comma (sort (sorted_list_of_set S))) ` Pow (destinations_of (transitions a)))"

text \<open>
  What the loop keeps true of \<open>new_states\<close>: its keys are canonical keys, none is
  repeated, the seeded identifier is among its values, and every value is the letter q
  followed by a numeral.
\<close>

definition naming :: "automaton \<Rightarrow> conversion \<Rightarrow> bool" where
  "naming a c \<longleftrightarrow>
     fst ` set (new_states c) \<subseteq> names a \<and>
     distinct (map fst (new_states c)) \<and>
     fst (seed a) \<in> identifiers c \<and>
     (\<forall>ident \<in> identifiers c. \<exists>n. ident = ''q'' @ str_nat n)"

text \<open>
  What the loop keeps true of the worklist and of the sets: they hold minted identifiers,
  and only processed identifiers are final or have a dictionary of transitions.
\<close>

definition pending :: "conversion \<Rightarrow> bool" where
  "pending c \<longleftrightarrow>
     processed_states c \<subseteq> identifiers c \<and>
     set (states_to_process c) \<subseteq> identifiers c \<and>
     dfa_final_states c \<subseteq> processed_states c \<and>
     fst ` set (dfa_transitions c) \<subseteq> processed_states c"

text \<open>
  What the loop keeps true of \<open>dfa_transitions\<close>: keys are not repeated, every
  symbol is in the alphabet, and every value is one minted identifier, stored as a string.
\<close>

definition recorded :: "automaton \<Rightarrow> conversion \<Rightarrow> bool" where
  "recorded a c \<longleftrightarrow>
     distinct (map fst (dfa_transitions c)) \<and>
     (\<forall>(origin, r) \<in> set (dfa_transitions c).
        distinct (map fst r) \<and>
        (\<forall>(symbol, v) \<in> set r.
           symbol \<in> set (alphabet a) \<and> (\<exists>ident \<in> identifiers c. v = PStr ident)))"

text \<open>The invariant of the \<open>while\<close> loop.\<close>

definition explored :: "automaton \<Rightarrow> conversion \<Rightarrow> bool" where
  "explored a c \<longleftrightarrow> naming a c \<and> pending c \<and> recorded a c"

text \<open>
  The two measures of the termination order: the canonical keys not yet matched by a
  processed identifier, and the entries of the worklist that are processed already.
\<close>

definition unprocessed :: "automaton \<Rightarrow> conversion \<Rightarrow> nat" where
  "unprocessed a c = card (names a) - card (processed_states c)"

definition stale :: "conversion \<Rightarrow> nat" where
  "stale c = length (filter (\<lambda>x. x \<in> processed_states c) (states_to_process c))"

subsection \<open>Example inputs\<close>

text \<open>The file of the docstring of \<open>load_automata\<close>, and the automaton it describes.\<close>

definition example_file :: source_file where
  "example_file =
     \<lparr>alphabet_line = [''a'', ''b''],
      states_line = [''q0'', ''q1'', ''q2'', ''q3''],
      final_states_line = [''q0'', ''q3''],
      initial_state_line = ''q0'',
      transition_lines =
        [[''q0'', ''a'', ''q1''], [''q0'', ''b'', ''q2''],
         [''q1'', ''a'', ''q0''], [''q1'', ''b'', ''q3''],
         [''q2'', ''a'', ''q3''], [''q2'', ''b'', ''q0''],
         [''q3'', ''a'', ''q1''], [''q3'', ''b'', ''q2'']]\<rparr>"

definition example_automaton :: automaton where
  "example_automaton =
     \<lparr>alphabet = [''a'', ''b''],
      states = [''q0'', ''q1'', ''q2'', ''q3''],
      final_states = [''q0'', ''q3''],
      initial_state = ''q0'',
      transitions =
        [(''q0'', [(''a'', PList [''q1'']), (''b'', PList [''q2''])]),
         (''q1'', [(''a'', PList [''q0'']), (''b'', PList [''q3''])]),
         (''q2'', [(''a'', PList [''q3'']), (''b'', PList [''q0''])]),
         (''q3'', [(''a'', PList [''q1'']), (''b'', PList [''q2''])])]\<rparr>"

text \<open>A file that names a state and a symbol twice, and the automaton read from it.\<close>

definition repeated_file :: source_file where
  "repeated_file =
     \<lparr>alphabet_line = [''a'', ''a''],
      states_line = [''q0'', ''q0''],
      final_states_line = [],
      initial_state_line = ''q0'',
      transition_lines = [[''q0'', ''a'', ''q0'']]\<rparr>"

definition repeated_automaton :: automaton where
  "repeated_automaton =
     \<lparr>alphabet = [''a'', ''a''],
      states = [''q0'', ''q0''],
      final_states = [],
      initial_state = ''q0'',
      transitions = [(''q0'', [(''a'', PList [''q0''])])]\<rparr>"

text \<open>What \<open>convert_to_dfa\<close> returns for the automaton of the docstring.\<close>

definition example_dfa :: automaton where
  "example_dfa =
     \<lparr>alphabet = [''a'', ''b''],
      states = [''q0'', ''q1'', ''q2'', ''q3''],
      final_states = [''q0'', ''q3''],
      initial_state = ''q0'',
      transitions =
        [(''q0'', [(''a'', PStr ''q1''), (''b'', PStr ''q2'')]),
         (''q2'', [(''a'', PStr ''q3''), (''b'', PStr ''q0'')]),
         (''q3'', [(''a'', PStr ''q1''), (''b'', PStr ''q2'')]),
         (''q1'', [(''a'', PStr ''q0''), (''b'', PStr ''q3'')])]\<rparr>"

text \<open>
  A file whose automaton has two destinations for one state and symbol, the automaton
  read from it, and what \<open>convert_to_dfa\<close> returns for it.
\<close>

definition branching_file :: source_file where
  "branching_file =
     \<lparr>alphabet_line = [''a''],
      states_line = [''q0'', ''q1''],
      final_states_line = [''q1''],
      initial_state_line = ''q0'',
      transition_lines = [[''q0'', ''a'', ''q0''], [''q0'', ''a'', ''q1'']]\<rparr>"

definition branching_automaton :: automaton where
  "branching_automaton =
     \<lparr>alphabet = [''a''],
      states = [''q0'', ''q1''],
      final_states = [''q1''],
      initial_state = ''q0'',
      transitions = [(''q0'', [(''a'', PList [''q0'', ''q1''])])]\<rparr>"

definition branching_dfa :: automaton where
  "branching_dfa =
     \<lparr>alphabet = [''a''],
      states = [''q0'', ''q1''],
      final_states = [''q1''],
      initial_state = ''q0'',
      transitions = [(''q0'', [(''a'', PStr ''q1'')]), (''q1'', [])]\<rparr>"

text \<open>A file whose automaton reaches one state by two symbols, and the automaton read from it.\<close>

definition twice_file :: source_file where
  "twice_file =
     \<lparr>alphabet_line = [''a'', ''b''],
      states_line = [''q0'', ''q1''],
      final_states_line = [''q1''],
      initial_state_line = ''q0'',
      transition_lines = [[''q0'', ''a'', ''q1''], [''q0'', ''b'', ''q1'']]\<rparr>"

definition twice_automaton :: automaton where
  "twice_automaton =
     \<lparr>alphabet = [''a'', ''b''],
      states = [''q0'', ''q1''],
      final_states = [''q1''],
      initial_state = ''q0'',
      transitions = [(''q0'', [(''a'', PList [''q1'']), (''b'', PList [''q1''])])]\<rparr>"

section \<open>Properties\<close>

subsection \<open>The simulation\<close>

lemma defined_transition_nonempty:
  assumes "nonempty_destinations a" and "defined_transition a q x = Some v"
  shows "elems v \<noteq> []"
proof -
  from assms(2) obtain r where r: "map_of (transitions a) q = Some r" and v: "map_of r x = Some v"
    by (auto simp: defined_transition_def split: option.splits)
  from r have "(q, r) \<in> set (transitions a)" by (rule map_of_SomeD)
  moreover from v have "(x, v) \<in> set r" by (rule map_of_SomeD)
  ultimately show ?thesis using assms(1) by (fastforce simp: nonempty_destinations_def)
qed

lemma symbol_body_cases:
  "symbol_body a x l =
     (if x \<notin> set (alphabet a)
      then Break (l\<lparr>results := results l @ [''INVALIDA''], is_valid := False\<rparr>)
      else case defined_transition a (current_state l) x of
             None \<Rightarrow> Break (l\<lparr>results := results l @ [''REJEITA''], is_valid := False\<rparr>)
           | Some v \<Rightarrow>
               (case index0 v of Inl e \<Rightarrow> Raise e | Inr d \<Rightarrow> Continue (l\<lparr>current_state := d\<rparr>)))"
  by (simp add: symbol_body_def defined_transition_def split: option.splits)

lemma for_symbols_classify:
  assumes "nonempty_destinations a"
  shows "is_valid l \<Longrightarrow>
    \<exists>l'. for_symbols a w l = Inr l' \<and>
         finish a l' = results l @ [outcome_text (classify_from a (current_state l) w)]"
proof (induction w arbitrary: l)
  case Nil
  then show ?case by (simp add: finish_def)
next
  case (Cons x w)
  show ?case
  proof (cases "x \<in> set (alphabet a)")
    case False
    then show ?thesis by (simp add: symbol_body_cases finish_def)
  next
    case inA: True
    show ?thesis
    proof (cases "defined_transition a (current_state l) x")
      case None
      with inA show ?thesis by (simp add: symbol_body_cases finish_def)
    next
      case (Some v)
      with assms have "elems v \<noteq> []" by (rule defined_transition_nonempty)
      then obtain d ds where e: "elems v = d # ds" by (cases "elems v") auto
      let ?l = "l\<lparr>current_state := d\<rparr>"
      from Cons.prems have "is_valid ?l" by simp
      from Cons.IH [OF this] obtain l' where
        "for_symbols a w ?l = Inr l'"
        "finish a l' = results ?l @ [outcome_text (classify_from a (current_state ?l) w)]"
        by blast
      with inA Some e show ?thesis by (simp add: symbol_body_cases index0_def)
    qed
  qed
qed

lemma word_body_classify:
  assumes "nonempty_destinations a"
  shows "word_body a w res = Inr (res @ [outcome_text (classify a w)])"
proof -
  let ?l = "\<lparr>current_state = initial_state a, is_valid = True, results = res\<rparr>"
  have "is_valid ?l" by simp
  from for_symbols_classify [OF assms this, of w] obtain l' where
    "for_symbols a w ?l = Inr l'"
    "finish a l' = res @ [outcome_text (classify a w)]"
    by (auto simp: classify_def)
  then show ?thesis by (simp add: word_body_def finish_def)
qed

lemma for_words_classify:
  assumes "nonempty_destinations a"
  shows "for_words a ws res = Inr (res @ map (\<lambda>w. outcome_text (classify a w)) ws)"
  by (induction ws arbitrary: res) (simp_all add: word_body_classify [OF assms])

lemma nonempty_example: "nonempty_destinations example_automaton"
  by (simp add: nonempty_destinations_def example_automaton_def)

lemma for_symbols_returned:
  "for_symbols a w l = Inr l' \<Longrightarrow> is_valid l \<Longrightarrow>
     finish a l' = results l @ [outcome_text (classify_from a (current_state l) w)]"
proof (induction w arbitrary: l)
  case Nil
  then show ?case by (simp add: finish_def)
next
  case (Cons x w)
  show ?case
  proof (cases "x \<in> set (alphabet a)")
    case False
    with Cons.prems show ?thesis by (auto simp: symbol_body_cases finish_def)
  next
    case inA: True
    show ?thesis
    proof (cases "defined_transition a (current_state l) x")
      case None
      with inA Cons.prems show ?thesis by (auto simp: symbol_body_cases finish_def)
    next
      case (Some v)
      show ?thesis
      proof (cases "elems v")
        case Nil
        with inA Some Cons.prems(1) show ?thesis by (simp add: symbol_body_cases index0_def)
      next
        case (Cons d ds)
        let ?l = "l\<lparr>current_state := d\<rparr>"
        from inA Some Cons Cons.prems(1) have "for_symbols a w ?l = Inr l'"
          by (simp add: symbol_body_cases index0_def)
        moreover from Cons.prems(2) have "is_valid ?l" by simp
        ultimately have "finish a l' = results ?l @ [outcome_text (classify_from a (current_state ?l) w)]"
          by (rule Cons.IH)
        with inA Some Cons show ?thesis by simp
      qed
    qed
  qed
qed

lemma word_body_returned:
  assumes "word_body a w res = Inr res'"
  shows "res' = res @ [outcome_text (classify a w)]"
proof -
  let ?l = "\<lparr>current_state = initial_state a, is_valid = True, results = res\<rparr>"
  from assms obtain l' where l: "for_symbols a w ?l = Inr l'" and r: "res' = finish a l'"
    by (auto simp: word_body_def finish_def split: sum.splits)
  from for_symbols_returned [OF l] r show ?thesis by (simp add: classify_def)
qed

lemma for_words_returned:
  "for_words a ws res = Inr res' \<Longrightarrow>
     res' = res @ map (\<lambda>w. outcome_text (classify a w)) ws"
proof (induction ws arbitrary: res)
  case Nil
  then show ?case by simp
next
  case (Cons w ws)
  from Cons.prems obtain r1 where r1: "word_body a w res = Inr r1" and
    r2: "for_words a ws r1 = Inr res'"
    by (auto split: sum.splits)
  from word_body_returned [OF r1] Cons.IH [OF r2] show ?case by simp
qed

text \<open>
  Claim C2. \<open>process\<close> gives every word the outcome that the specification
  describes: the run starts at \<open>initial_state\<close> and reads the word from the left; the
  first symbol outside the alphabet gives INVALIDA at once; otherwise a missing transition
  for the current state and the symbol gives REJEITA at once; otherwise the current state
  becomes the first destination of the entry; and a word read to its end gives ACEITA when
  the current state is in \<open>final_states\<close> and REJEITA when it is not. This holds
  of every result that \<open>process\<close> returns, for every automaton, and
  \<open>process\<close> returns whenever the transition entries are non-empty sequences.
\<close>

theorem process_classify:
  "(\<forall>rs. process a ws = Inr rs \<longrightarrow> rs = map (\<lambda>w. outcome_text (classify a w)) ws) \<and>
   (nonempty_destinations a \<longrightarrow>
      process a ws = Inr (map (\<lambda>w. outcome_text (classify a w)) ws))"
proof (intro conjI allI impI)
  fix rs assume "process a ws = Inr rs"
  then have "for_words a ws [] = Inr rs" by (simp add: process_def)
  from for_words_returned [OF this] show "rs = map (\<lambda>w. outcome_text (classify a w)) ws"
    by simp
next
  assume "nonempty_destinations a"
  from for_words_classify [OF this, of ws "[]"]
  show "process a ws = Inr (map (\<lambda>w. outcome_text (classify a w)) ws)"
    by (simp add: process_def)
qed

theorem process_classify_witness:
  "nonempty_destinations example_automaton \<and>
   process example_automaton [[''a'', ''b''], [''b'', ''a''], [''c''], [], [''a'', ''a'', ''b'']] =
     Inr [''ACEITA'', ''ACEITA'', ''INVALIDA'', ''ACEITA'', ''REJEITA'']"
proof -
  have m: "map (\<lambda>w. outcome_text (classify example_automaton w))
          [[''a'', ''b''], [''b'', ''a''], [''c''], [], [''a'', ''a'', ''b'']] =
        [''ACEITA'', ''ACEITA'', ''INVALIDA'', ''ACEITA'', ''REJEITA'']"
    by code_simp
  from process_classify [of example_automaton
         "[[''a'', ''b''], [''b'', ''a''], [''c''], [], [''a'', ''a'', ''b'']]"]
  have "nonempty_destinations example_automaton \<longrightarrow>
    process example_automaton [[''a'', ''b''], [''b'', ''a''], [''c''], [], [''a'', ''a'', ''b'']] =
      Inr (map (\<lambda>w. outcome_text (classify example_automaton w))
          [[''a'', ''b''], [''b'', ''a''], [''c''], [], [''a'', ''a'', ''b'']])"
    by (rule conjunct2)
  with nonempty_example have
    "process example_automaton [[''a'', ''b''], [''b'', ''a''], [''c''], [], [''a'', ''a'', ''b'']] =
      Inr (map (\<lambda>w. outcome_text (classify example_automaton w))
          [[''a'', ''b''], [''b'', ''a''], [''c''], [], [''a'', ''a'', ''b'']])"
    by (rule mp [rotated])
  with m nonempty_example show ?thesis by (simp only: simp_thms)
qed

subsection \<open>The loader\<close>

lemma set_update_subset: "set (AList.update k v al) \<subseteq> insert (k, v) (set al)"
  by (induction al) auto

lemma update_mem: "(k, v) \<in> set (AList.update k v al)"
  by (induction al) auto

lemma update_other: "p \<in> set al \<Longrightarrow> fst p \<noteq> k \<Longrightarrow> p \<in> set (AList.update k v al)"
  by (induction al) auto

lemma check_final_states_None:
  "check_final_states sts fs = None \<longleftrightarrow> set fs \<subseteq> set sts"
  by (induction fs) auto

lemma check_final_states_Some:
  "check_final_states sts fs = Some e \<Longrightarrow> e = ValueError Estado_final_ausente"
  by (induction fs) (auto split: if_splits)

lemma check_destinations_None:
  "check_destinations sts ds = None \<longleftrightarrow> set ds \<subseteq> set sts"
  by (induction ds) auto

lemma check_destinations_Some:
  "check_destinations sts ds = Some e \<Longrightarrow>
     e = ValueError Transicao_leva_a_estado_ausente \<and> \<not> set ds \<subseteq> set sts"
  by (induction ds) (auto split: if_splits)

lemma check_symbols_None:
  "check_symbols alph sts r = None \<longleftrightarrow>
     (\<forall>(a, v) \<in> set r. a \<in> set alph \<and> set (elems v) \<subseteq> set sts)"
proof (induction r)
  case Nil
  then show ?case by simp
next
  case (Cons p r)
  obtain a v where p: "p = (a, v)" by (cases p)
  show ?case
    by (cases "check_destinations sts (elems v)")
       (use Cons.IH check_destinations_None [of sts "elems v"] in \<open>auto simp: p\<close>)
qed

lemma check_symbols_Some:
  "check_symbols alph sts r = Some e \<Longrightarrow>
     e = ValueError Transicao_utiliza_simbolo_invalido \<and> (\<exists>(a, v) \<in> set r. a \<notin> set alph) \<or>
     e = ValueError Transicao_leva_a_estado_ausente \<and>
       (\<exists>(a, v) \<in> set r. \<not> set (elems v) \<subseteq> set sts)"
proof (induction r)
  case Nil
  then show ?case by simp
next
  case (Cons p r)
  obtain a v where p: "p = (a, v)" by (cases p)
  show ?case
  proof (cases "a \<in> set alph")
    case False
    with Cons.prems p show ?thesis by simp
  next
    case True
    show ?thesis
    proof (cases "check_destinations sts (elems v)")
      case None
      with True p Cons.prems have "check_symbols alph sts r = Some e" by simp
      from Cons.IH [OF this] show ?thesis by auto
    next
      case (Some e')
      with True p Cons.prems have "e' = e" by simp
      with Some check_destinations_Some [of sts "elems v" e] p show ?thesis by auto
    qed
  qed
qed

lemma check_origins_None:
  "check_origins alph sts ts = None \<longleftrightarrow>
     origins_of ts \<subseteq> set sts \<and> symbols_of ts \<subseteq> set alph \<and> destinations_of ts \<subseteq> set sts"
proof (induction ts)
  case Nil
  then show ?case by (simp add: origins_of_def symbols_of_def destinations_of_def)
next
  case (Cons p ts)
  obtain origin r where p: "p = (origin, r)" by (cases p)
  have o: "origins_of (p # ts) = insert origin (origins_of ts)"
    by (simp add: origins_of_def p)
  have s: "symbols_of (p # ts) = fst ` set r \<union> symbols_of ts"
    by (auto simp: symbols_of_def p) force+
  have d: "destinations_of (p # ts) =
             (\<Union>(a, v) \<in> set r. set (elems v)) \<union> destinations_of ts"
    by (auto simp: destinations_of_def p)
  have r: "check_symbols alph sts r = None \<longleftrightarrow>
             fst ` set r \<subseteq> set alph \<and> (\<Union>(a, v) \<in> set r. set (elems v)) \<subseteq> set sts"
    by (auto simp: check_symbols_None)
  show ?case
    unfolding o s d using Cons.IH r
    by (auto simp: p split: option.splits)
qed

lemma set_update_distinct:
  "distinct (map fst al) \<Longrightarrow>
     set (AList.update k v al) = insert (k, v) {p \<in> set al. fst p \<noteq> k}"
proof (induction al)
  case Nil
  then show ?case by simp
next
  case (Cons p al)
  then show ?case by (cases "fst p = k") (auto simp: image_iff)
qed

lemma loaded_Nil: "loaded []"
  by (simp add: loaded_def)

lemma loaded_row:
  assumes "loaded ts"
  shows "\<exists>r. (case map_of ts origin of None \<Rightarrow> [] | Some r0 \<Rightarrow> r0) = r \<and>
             distinct (map fst r) \<and> (\<forall>(a, v) \<in> set r. \<exists>ds. v = PList ds) \<and>
             (\<forall>r0. (origin, r0) \<in> set ts \<longleftrightarrow> map_of ts origin = Some r0) \<and>
             (map_of ts origin = None \<longrightarrow> r = []) \<and>
             (\<forall>r0. map_of ts origin = Some r0 \<longrightarrow> r = r0)"
proof (cases "map_of ts origin")
  case None
  then have "\<forall>r0. (origin, r0) \<notin> set ts"
    by (auto simp: map_of_eq_None_iff image_iff)
  with None show ?thesis by simp
next
  case (Some r0)
  then have "(origin, r0) \<in> set ts" by (rule map_of_SomeD)
  with assms have "distinct (map fst r0)" "\<forall>(a, v) \<in> set r0. \<exists>ds. v = PList ds"
    by (auto simp: loaded_def)
  moreover from assms have "distinct (map fst ts)" by (simp add: loaded_def)
  then have "\<forall>r1. (origin, r1) \<in> set ts \<longleftrightarrow> map_of ts origin = Some r1" by simp
  ultimately show ?thesis using Some by simp
qed

lemma read_transition_loaded:
  assumes l: "loaded ts"
  shows "\<exists>ts'. read_transition ts [origin, symbol, destination] = Inr ts' \<and> loaded ts' \<and>
           origins_of ts' = insert origin (origins_of ts) \<and>
           symbols_of ts' = insert symbol (symbols_of ts) \<and>
           destinations_of ts' = insert destination (destinations_of ts)"
proof -
  define r where "r = (case map_of ts origin of None \<Rightarrow> [] | Some r0 \<Rightarrow> r0)"
  define v where "v = (case map_of r symbol of None \<Rightarrow> PList [] | Some v0 \<Rightarrow> v0)"
  from loaded_row [OF l, of origin] have
    dr: "distinct (map fst r)" and
    lr: "\<forall>(a, v) \<in> set r. \<exists>ds. v = PList ds" and
    mem: "\<And>r0. (origin, r0) \<in> set ts \<longleftrightarrow> map_of ts origin = Some r0" and
    none: "map_of ts origin = None \<Longrightarrow> r = []" and
    some: "\<And>r0. map_of ts origin = Some r0 \<Longrightarrow> r = r0"
    by (auto simp: r_def)
  have memr: "\<And>v0. (symbol, v0) \<in> set r \<longleftrightarrow> map_of r symbol = Some v0"
    using dr by simp
  obtain ds where v: "v = PList ds"
  proof (cases "map_of r symbol")
    case None
    then show ?thesis using that by (simp add: v_def)
  next
    case (Some v0)
    then have "(symbol, v0) \<in> set r" by (rule map_of_SomeD)
    with lr Some show ?thesis using that by (auto simp: v_def)
  qed
  have vmem: "\<And>v0. (symbol, v0) \<in> set r \<Longrightarrow> v0 = PList ds"
    using memr v by (auto simp: v_def)
  have vnone: "map_of r symbol = None \<Longrightarrow> ds = []"
    using v by (simp add: v_def)
  have vsome: "ds \<noteq> [] \<Longrightarrow> (symbol, PList ds) \<in> set r"
    using v memr by (cases "map_of r symbol") (auto simp: v_def)
  define r' where "r' = AList.update symbol (PList (ds @ [destination])) r"
  define ts' where "ts' = AList.update origin r' ts"
  have res: "read_transition ts [origin, symbol, destination] = Inr ts'"
    using v by (simp add: Let_def r_def [symmetric] v_def [symmetric] r'_def ts'_def)
  from l have dts: "distinct (map fst ts)" by (simp add: loaded_def)
  have sr': "set r' = insert (symbol, PList (ds @ [destination])) {p \<in> set r. fst p \<noteq> symbol}"
    unfolding r'_def by (rule set_update_distinct [OF dr])
  have sts': "set ts' = insert (origin, r') {p \<in> set ts. fst p \<noteq> origin}"
    unfolding ts'_def by (rule set_update_distinct [OF dts])
  have rin: "r \<noteq> [] \<Longrightarrow> (origin, r) \<in> set ts"
    using mem none some by (cases "map_of ts origin") auto
  have rin': "\<And>p. p \<in> set r \<Longrightarrow> (origin, r) \<in> set ts"
  proof -
    fix p assume "p \<in> set r"
    then have "r \<noteq> []" by auto
    then show "(origin, r) \<in> set ts" by (rule rin)
  qed
  have req: "\<And>r0. (origin, r0) \<in> set ts \<Longrightarrow> r0 = r"
    using mem some by auto
  have "loaded ts'"
  proof -
    have "distinct (map fst ts')" unfolding ts'_def by (rule distinct_update [OF dts])
    moreover have "distinct (map fst r')" unfolding r'_def by (rule distinct_update [OF dr])
    moreover have "\<forall>(a, v) \<in> set r'. \<exists>ds. v = PList ds"
      using lr by (auto simp: sr')
    ultimately show ?thesis using l by (auto simp: loaded_def sts')
  qed
  moreover have "origins_of ts' = insert origin (origins_of ts)"
    by (simp add: origins_of_def ts'_def dom_update)
  moreover have "symbols_of ts' = insert symbol (symbols_of ts)"
  proof (intro set_eqI iffI)
    fix a assume "a \<in> symbols_of ts'"
    then obtain o0 r0 v0 where "(o0, r0) \<in> set ts'" "(a, v0) \<in> set r0"
      by (auto simp: symbols_of_def)
    then consider "(o0, r0) \<in> set ts" | "r0 = r'" by (auto simp: sts')
    then show "a \<in> insert symbol (symbols_of ts)"
    proof cases
      case 1
      with \<open>(a, v0) \<in> set r0\<close> show ?thesis by (auto simp: symbols_of_def)
    next
      case 2
      with \<open>(a, v0) \<in> set r0\<close> consider "a = symbol" | "(a, v0) \<in> set r" by (auto simp: sr')
      then show ?thesis
      proof cases
        case 1
        then show ?thesis by simp
      next
        case 2
        with rin' [OF 2] show ?thesis by (auto simp: symbols_of_def)
      qed
    qed
  next
    fix a assume "a \<in> insert symbol (symbols_of ts)"
    then consider "a = symbol" | o0 r0 v0 where "(o0, r0) \<in> set ts" "(a, v0) \<in> set r0" "a \<noteq> symbol"
      by (auto simp: symbols_of_def)
    then show "a \<in> symbols_of ts'"
    proof cases
      case 1
      have "(origin, r') \<in> set ts'" by (simp add: sts')
      moreover have "(symbol, PList (ds @ [destination])) \<in> set r'" by (simp add: sr')
      ultimately show ?thesis unfolding symbols_of_def 1 by blast
    next
      case 2
      show ?thesis
      proof (cases "o0 = origin")
        case True
        with 2 req have "r0 = r" by simp
        with 2 have "(a, v0) \<in> set r'" by (simp add: sr')
        then show ?thesis by (auto simp: symbols_of_def sts')
      next
        case False
        with 2 show ?thesis by (auto simp: symbols_of_def sts')
      qed
    qed
  qed
  moreover have "destinations_of ts' = insert destination (destinations_of ts)"
  proof (intro set_eqI iffI)
    fix d assume "d \<in> destinations_of ts'"
    then obtain o0 r0 a0 v0 where
      h: "(o0, r0) \<in> set ts'" "(a0, v0) \<in> set r0" "d \<in> set (elems v0)"
      by (auto simp: destinations_of_def)
    show "d \<in> insert destination (destinations_of ts)"
    proof (cases "o0 = origin")
      case False
      with h show ?thesis by (auto simp: sts' destinations_of_def)
    next
      case True
      with h have r0: "r0 = r'" using req by (auto simp: sts')
      show ?thesis
      proof (cases "a0 = symbol")
        case False
        with h r0 have "(a0, v0) \<in> set r" by (auto simp: sr')
        with h rin' [OF this] show ?thesis by (auto simp: destinations_of_def)
      next
        case True
        with h r0 have "v0 = PList (ds @ [destination])" using vmem by (auto simp: sr')
        with h consider "d = destination" | "d \<in> set ds" by auto
        then show ?thesis
        proof cases
          case 1
          then show ?thesis by simp
        next
          case 2
          then have "ds \<noteq> []" by auto
          from vsome [OF this] have m: "(symbol, PList ds) \<in> set r" .
          from rin' [OF m] have "(origin, r) \<in> set ts" .
          moreover from 2 have "d \<in> set (elems (PList ds))" by simp
          ultimately have "d \<in> destinations_of ts" using m unfolding destinations_of_def by blast
          then show ?thesis by simp
        qed
      qed
    qed
  next
    fix d assume "d \<in> insert destination (destinations_of ts)"
    then consider "d = destination"
      | o0 r0 a0 v0 where "(o0, r0) \<in> set ts" "(a0, v0) \<in> set r0" "d \<in> set (elems v0)"
      by (auto simp: destinations_of_def)
    then show "d \<in> destinations_of ts'"
    proof cases
      case 1
      have "(origin, r') \<in> set ts'" by (simp add: sts')
      moreover have "(symbol, PList (ds @ [destination])) \<in> set r'" by (simp add: sr')
      ultimately show ?thesis using 1 by (fastforce simp: destinations_of_def)
    next
      case 2
      show ?thesis
      proof (cases "o0 = origin")
        case False
        with 2 have "(o0, r0) \<in> set ts'" by (simp add: sts')
        with 2 show ?thesis by (auto simp: destinations_of_def)
      next
        case True
        with 2 req have r0: "r0 = r" by simp
        have o: "(origin, r') \<in> set ts'" by (simp add: sts')
        show ?thesis
        proof (cases "a0 = symbol")
          case False
          with 2 r0 have "(a0, v0) \<in> set r'" by (simp add: sr')
          with o 2 show ?thesis by (auto simp: destinations_of_def)
        next
          case True
          with 2 r0 vmem have "v0 = PList ds" by simp
          with 2 have "d \<in> set (elems (PList (ds @ [destination])))" by simp
          moreover have "(symbol, PList (ds @ [destination])) \<in> set r'" by (simp add: sr')
          ultimately show ?thesis using o unfolding destinations_of_def by blast
        qed
      qed
    qed
  qed
  ultimately show ?thesis using res by blast
qed

lemma read_transition_format:
  "length parts \<noteq> 3 \<Longrightarrow> read_transition ts parts = Inl (ValueError Formato_de_transicao_invalido)"
  by (cases "(ts, parts)" rule: read_transition.cases) auto

lemma length3: "length (parts :: 'a list) = 3 \<Longrightarrow> \<exists>a b c. parts = [a, b, c]"
  by (cases parts; cases "tl parts"; cases "tl (tl parts)") auto

lemma read_transitions_loaded:
  assumes "\<forall>parts \<in> set ls. length parts = 3" and "loaded ts"
  shows "\<exists>ts'. read_transitions ls ts = Inr ts' \<and> loaded ts' \<and>
           origins_of ts' = line_origins ls \<union> origins_of ts \<and>
           symbols_of ts' = line_symbols ls \<union> symbols_of ts \<and>
           destinations_of ts' = line_destinations ls \<union> destinations_of ts"
  using assms
proof (induction ls arbitrary: ts)
  case Nil
  then show ?case by (simp add: line_origins_def line_symbols_def line_destinations_def)
next
  case (Cons parts ls)
  from Cons.prems(1) have "length parts = 3" by simp
  then obtain a b c where parts: "parts = [a, b, c]" using length3 by blast
  from read_transition_loaded [OF Cons.prems(2), of a b c] obtain t1 where
    t1: "read_transition ts [a, b, c] = Inr t1" "loaded t1"
        "origins_of t1 = insert a (origins_of ts)"
        "symbols_of t1 = insert b (symbols_of ts)"
        "destinations_of t1 = insert c (destinations_of ts)"
    by blast
  from Cons.prems(1) have "\<forall>parts \<in> set ls. length parts = 3" by simp
  from Cons.IH [OF this t1(2)] obtain t2 where
    t2: "read_transitions ls t1 = Inr t2" "loaded t2"
        "origins_of t2 = line_origins ls \<union> origins_of t1"
        "symbols_of t2 = line_symbols ls \<union> symbols_of t1"
        "destinations_of t2 = line_destinations ls \<union> destinations_of t1"
    by blast
  have "line_origins (parts # ls) = insert a (line_origins ls)"
       "line_symbols (parts # ls) = insert b (line_symbols ls)"
       "line_destinations (parts # ls) = insert c (line_destinations ls)"
    by (auto simp: parts line_origins_def line_symbols_def line_destinations_def)
  with t1 t2 show ?case by (simp add: parts)
qed

lemma check_origins_Some:
  "check_origins alph sts ts = Some e \<Longrightarrow>
     e = ValueError Transicao_parte_de_estado_ausente \<and> \<not> origins_of ts \<subseteq> set sts \<or>
     e = ValueError Transicao_utiliza_simbolo_invalido \<and> \<not> symbols_of ts \<subseteq> set alph \<or>
     e = ValueError Transicao_leva_a_estado_ausente \<and> \<not> destinations_of ts \<subseteq> set sts"
proof (induction ts)
  case Nil
  then show ?case by simp
next
  case (Cons p ts)
  obtain origin r where p: "p = (origin, r)" by (cases p)
  have o: "origins_of ts \<subseteq> origins_of (p # ts)" "origin \<in> origins_of (p # ts)"
    by (auto simp: origins_of_def p)
  have s: "symbols_of ts \<subseteq> symbols_of (p # ts)" "fst ` set r \<subseteq> symbols_of (p # ts)"
    by (auto simp: symbols_of_def p) force+
  have d: "destinations_of ts \<subseteq> destinations_of (p # ts)"
          "\<And>a v. (a, v) \<in> set r \<Longrightarrow> set (elems v) \<subseteq> destinations_of (p # ts)"
    by (auto simp: destinations_of_def p)
  show ?case
  proof (cases "origin \<in> set sts")
    case False
    with Cons.prems p o show ?thesis by auto
  next
    case True
    show ?thesis
    proof (cases "check_symbols alph sts r")
      case None
      with True p Cons.prems have "check_origins alph sts ts = Some e" by simp
      from Cons.IH [OF this] o s d show ?thesis by blast
    next
      case (Some e')
      with True p Cons.prems have "e' = e" by simp
      with Some have "check_symbols alph sts r = Some e" by simp
      from check_symbols_Some [OF this] show ?thesis
      proof
        assume "e = ValueError Transicao_utiliza_simbolo_invalido \<and> (\<exists>(a, v) \<in> set r. a \<notin> set alph)"
        with s show ?thesis by force
      next
        assume "e = ValueError Transicao_leva_a_estado_ausente \<and>
                  (\<exists>(a, v) \<in> set r. \<not> set (elems v) \<subseteq> set sts)"
        with d show ?thesis by fast
      qed
    qed
  qed
qed

lemma load_body_cases:
  assumes "\<forall>parts \<in> set (transition_lines f). length parts = 3"
  shows "\<exists>ts. read_transitions (transition_lines f) [] = Inr ts \<and> loaded ts \<and>
           origins_of ts = line_origins (transition_lines f) \<and>
           symbols_of ts = line_symbols (transition_lines f) \<and>
           destinations_of ts = line_destinations (transition_lines f) \<and>
           load_body f =
             (if initial_state_line f \<notin> set (states_line f)
              then Inl (ValueError Estado_inicial_ausente)
              else if \<not> set (final_states_line f) \<subseteq> set (states_line f)
              then Inl (ValueError Estado_final_ausente)
              else case check_origins (alphabet_line f) (states_line f) ts of
                     Some e \<Rightarrow> Inl e
                   | None \<Rightarrow>
                       Inr \<lparr>alphabet = alphabet_line f, states = states_line f,
                            final_states = final_states_line f,
                            initial_state = initial_state_line f, transitions = ts\<rparr>)"
proof -
  from read_transitions_loaded [OF assms loaded_Nil] obtain ts where
    ts: "read_transitions (transition_lines f) [] = Inr ts" "loaded ts"
        "origins_of ts = line_origins (transition_lines f)"
        "symbols_of ts = line_symbols (transition_lines f)"
        "destinations_of ts = line_destinations (transition_lines f)"
    by (auto simp: origins_of_def symbols_of_def destinations_of_def)
  have "check_final_states (states_line f) (final_states_line f) = None
          \<or> check_final_states (states_line f) (final_states_line f) =
              Some (ValueError Estado_final_ausente)"
    using check_final_states_Some by (cases "check_final_states (states_line f) (final_states_line f)") auto
  then have "load_body f =
             (if initial_state_line f \<notin> set (states_line f)
              then Inl (ValueError Estado_inicial_ausente)
              else if \<not> set (final_states_line f) \<subseteq> set (states_line f)
              then Inl (ValueError Estado_final_ausente)
              else case check_origins (alphabet_line f) (states_line f) ts of
                     Some e \<Rightarrow> Inl e
                   | None \<Rightarrow>
                       Inr \<lparr>alphabet = alphabet_line f, states = states_line f,
                            final_states = final_states_line f,
                            initial_state = initial_state_line f, transitions = ts\<rparr>)"
    using check_final_states_None [of "states_line f" "final_states_line f"]
    by (auto simp: load_body_def ts(1))
  with ts show ?thesis by blast
qed

lemma loaded_invariants:
  assumes "loaded ts" and "i \<in> set sts" and "set fs \<subseteq> set sts"
    and "origins_of ts \<subseteq> set sts" and "symbols_of ts \<subseteq> set alph"
    and "destinations_of ts \<subseteq> set sts"
  shows "invariants \<lparr>alphabet = alph, states = sts, final_states = fs,
                     initial_state = i, transitions = ts\<rparr>"
proof -
  have "origin \<in> set sts \<and> symbol \<in> set alph \<and> set (destinations v) \<subseteq> set sts"
    if "(origin, r) \<in> set ts" "(symbol, v) \<in> set r" for origin r symbol v
  proof -
    from that assms(1) obtain ds where v: "v = PList ds" by (fastforce simp: loaded_def)
    from that have "origin \<in> origins_of ts" by (force simp: origins_of_def)
    moreover from that have "symbol \<in> symbols_of ts" unfolding symbols_of_def by blast
    moreover from that have "set (elems v) \<subseteq> destinations_of ts"
      unfolding destinations_of_def by blast
    ultimately show ?thesis using assms v by auto
  qed
  moreover have "origin \<in> set sts" if "(origin, r) \<in> set ts" for origin r
    using that assms(4) by (force simp: origins_of_def)
  ultimately show ?thesis using assms(2,3) by (simp add: invariants_def) blast
qed

text \<open>
  Claim C7. When every transition line has three tokens, \<open>load_automata\<close> returns an
  automaton exactly when the tokens violate none of the four structural invariants; the
  automaton it returns satisfies them all; and when it fails, the message of its
  \<open>ValueError\<close> names an invariant that is violated: the initial state, a final
  state, an origin, a symbol, or a destination. The messages differ from each other.
\<close>

theorem load_automata_structural:
  assumes "\<forall>parts \<in> set (transition_lines f). length parts = 3"
  shows "((\<exists>a. load_automata f = Inr a) \<longleftrightarrow> structurally_valid f) \<and>
         (\<forall>a. load_automata f = Inr a \<longrightarrow> invariants a) \<and>
         (\<forall>e. load_automata f = Inl e \<longrightarrow>
            e = ValueError (Erro_ao_ler_o_arquivo Estado_inicial_ausente) \<and>
              initial_state_line f \<notin> set (states_line f) \<or>
            e = ValueError (Erro_ao_ler_o_arquivo Estado_final_ausente) \<and>
              \<not> set (final_states_line f) \<subseteq> set (states_line f) \<or>
            e = ValueError (Erro_ao_ler_o_arquivo Transicao_parte_de_estado_ausente) \<and>
              \<not> line_origins (transition_lines f) \<subseteq> set (states_line f) \<or>
            e = ValueError (Erro_ao_ler_o_arquivo Transicao_utiliza_simbolo_invalido) \<and>
              \<not> line_symbols (transition_lines f) \<subseteq> set (alphabet_line f) \<or>
            e = ValueError (Erro_ao_ler_o_arquivo Transicao_leva_a_estado_ausente) \<and>
              \<not> line_destinations (transition_lines f) \<subseteq> set (states_line f))"
proof -
  from load_body_cases [OF assms] obtain ts where
    ts: "loaded ts"
        "origins_of ts = line_origins (transition_lines f)"
        "symbols_of ts = line_symbols (transition_lines f)"
        "destinations_of ts = line_destinations (transition_lines f)" and
    body: "load_body f =
             (if initial_state_line f \<notin> set (states_line f)
              then Inl (ValueError Estado_inicial_ausente)
              else if \<not> set (final_states_line f) \<subseteq> set (states_line f)
              then Inl (ValueError Estado_final_ausente)
              else case check_origins (alphabet_line f) (states_line f) ts of
                     Some e \<Rightarrow> Inl e
                   | None \<Rightarrow>
                       Inr \<lparr>alphabet = alphabet_line f, states = states_line f,
                            final_states = final_states_line f,
                            initial_state = initial_state_line f, transitions = ts\<rparr>)"
    by blast
  let ?a = "\<lparr>alphabet = alphabet_line f, states = states_line f,
             final_states = final_states_line f,
             initial_state = initial_state_line f, transitions = ts\<rparr>"
  consider
      (initial) "initial_state_line f \<notin> set (states_line f)"
    | (final) "initial_state_line f \<in> set (states_line f)"
        "\<not> set (final_states_line f) \<subseteq> set (states_line f)"
    | (table) e where "initial_state_line f \<in> set (states_line f)"
        "set (final_states_line f) \<subseteq> set (states_line f)"
        "check_origins (alphabet_line f) (states_line f) ts = Some e"
    | (good) "initial_state_line f \<in> set (states_line f)"
        "set (final_states_line f) \<subseteq> set (states_line f)"
        "check_origins (alphabet_line f) (states_line f) ts = None"
    by (cases "check_origins (alphabet_line f) (states_line f) ts") auto
  then show ?thesis
  proof cases
    case initial
    with body have "load_automata f = Inl (ValueError (Erro_ao_ler_o_arquivo Estado_inicial_ausente))"
      by (simp add: load_automata_def)
    with initial show ?thesis by (simp add: structurally_valid_def)
  next
    case final
    with body have "load_automata f = Inl (ValueError (Erro_ao_ler_o_arquivo Estado_final_ausente))"
      by (simp add: load_automata_def)
    with final show ?thesis by (simp add: structurally_valid_def)
  next
    case table
    from check_origins_Some [OF table(3)] obtain m where
      e: "e = ValueError m" and
      m: "m = Transicao_parte_de_estado_ausente \<and> \<not> origins_of ts \<subseteq> set (states_line f) \<or>
          m = Transicao_utiliza_simbolo_invalido \<and> \<not> symbols_of ts \<subseteq> set (alphabet_line f) \<or>
          m = Transicao_leva_a_estado_ausente \<and> \<not> destinations_of ts \<subseteq> set (states_line f)"
      by blast
    from body table e have l: "load_automata f = Inl (ValueError (Erro_ao_ler_o_arquivo m))"
      by (simp add: load_automata_def)
    from m ts have "\<not> structurally_valid f" by (auto simp: structurally_valid_def)
    with l m ts show ?thesis by auto
  next
    case good
    with body have l: "load_automata f = Inr ?a" by (simp add: load_automata_def)
    from good(3) have sub: "origins_of ts \<subseteq> set (states_line f)"
      "symbols_of ts \<subseteq> set (alphabet_line f)" "destinations_of ts \<subseteq> set (states_line f)"
      by (simp_all add: check_origins_None)
    from loaded_invariants [OF ts(1) good(1,2) sub] have "invariants ?a" .
    moreover from good sub ts have "structurally_valid f" by (simp add: structurally_valid_def)
    ultimately show ?thesis using l by simp
  qed
qed

lemma example_lines: "\<forall>parts \<in> set (transition_lines example_file). length parts = 3"
  by (simp add: example_file_def)

lemma load_example: "load_automata example_file = Inr example_automaton"
  by code_simp

theorem load_automata_structural_witness:
  "load_automata example_file = Inr example_automaton \<and> structurally_valid example_file"
  using load_automata_structural [OF example_lines] load_example by blast

text \<open>
  Claim C5, as the code has it. \<open>load_automata\<close> returns the state names and the
  symbols exactly as the file lists them, in the same order and with every repetition:
  \<open>states\<close> and \<open>alphabet\<close> are free of repetitions exactly when the lines of the
  file are.
\<close>

theorem load_automata_keeps_tokens:
  assumes "load_automata f = Inr a"
  shows "states a = states_line f \<and> alphabet a = alphabet_line f \<and>
         (distinct (states a) \<longleftrightarrow> distinct (states_line f)) \<and>
         (distinct (alphabet a) \<longleftrightarrow> distinct (alphabet_line f))"
proof -
  from assms have "load_body f = Inr a"
    by (auto simp: load_automata_def split: sum.splits error.splits)
  then have "states a = states_line f \<and> alphabet a = alphabet_line f"
    by (auto simp: load_body_def split: sum.splits option.splits if_splits)
  then show ?thesis by simp
qed

theorem load_automata_keeps_tokens_witness:
  "load_automata example_file = Inr example_automaton \<and>
   states example_automaton = states_line example_file \<and>
   distinct (states example_automaton)"
  using load_automata_keeps_tokens [OF load_example] load_example
  by (simp add: example_file_def)

text \<open>
  The claim C5 as the specification states it fails: a file that repeats a state name and
  a symbol is accepted, and the automaton returned repeats them.
\<close>

theorem load_automata_repeated:
  "load_automata repeated_file = Inr repeated_automaton \<and>
   \<not> distinct (states repeated_automaton) \<and>
   \<not> distinct (alphabet repeated_automaton)"
  by code_simp

subsection \<open>The conversion\<close>

lemma finite_destinations_of: "finite (destinations_of ts)"
proof -
  have "destinations_of ts = (\<Union>p \<in> set ts. \<Union>q \<in> set (snd p). set (elems (snd q)))"
    by (auto simp: destinations_of_def) (force, blast)
  then show ?thesis by simp
qed

lemma finite_names: "finite (names a)"
  by (simp add: names_def finite_destinations_of)

lemma gather_subset:
  "gather a symbol sts S \<subseteq> S \<union> destinations_of (transitions a)"
proof (induction sts arbitrary: S)
  case Nil
  then show ?case by simp
next
  case (Cons state sts)
  let ?S = "(case map_of (transitions a) state of
          None \<Rightarrow> S
        | Some r \<Rightarrow> (case map_of r symbol of None \<Rightarrow> S | Some v \<Rightarrow> S \<union> set (elems v)))"
  have "?S \<subseteq> S \<union> destinations_of (transitions a)"
  proof (cases "map_of (transitions a) state")
    case None
    then show ?thesis by simp
  next
    case (Some r)
    then have r: "(state, r) \<in> set (transitions a)" by (rule map_of_SomeD)
    show ?thesis
    proof (cases "map_of r symbol")
      case None
      with Some show ?thesis by simp
    next
      case v: (Some v)
      then have "(symbol, v) \<in> set r" by (rule map_of_SomeD)
      with r have "set (elems v) \<subseteq> destinations_of (transitions a)"
        unfolding destinations_of_def by blast
      with Some v show ?thesis by auto
    qed
  qed
  with Cons.IH [of ?S] show ?case by auto
qed

lemma gather_name: "join_comma (sort (sorted_list_of_set (gather a symbol sts {}))) \<in> names a"
  using gather_subset [of a symbol sts "{}"] by (simp add: names_def)

lemma str_nat_nonempty: "str_nat n \<noteq> []"
  by (subst str_nat.simps) simp

lemma get_state_name_fields:
  "dfa_transitions (snd (get_state_name xs c)) = dfa_transitions c"
  "dfa_final_states (snd (get_state_name xs c)) = dfa_final_states c"
  "states_to_process (snd (get_state_name xs c)) = states_to_process c"
  "processed_states (snd (get_state_name xs c)) = processed_states c"
  by (simp_all add: get_state_name_def Let_def split: option.splits)

lemma get_state_name_identifiers:
  "identifiers c \<subseteq> identifiers (snd (get_state_name xs c))"
  "fst (get_state_name xs c) \<in> identifiers (snd (get_state_name xs c))"
proof -
  let ?name = "join_comma (sort xs)"
  show "identifiers c \<subseteq> identifiers (snd (get_state_name xs c))"
  proof (cases "map_of (new_states c) ?name")
    case None
    then have "?name \<notin> fst ` set (new_states c)" by (simp add: map_of_eq_None_iff)
    then have "\<And>p. p \<in> set (new_states c) \<Longrightarrow> fst p \<noteq> ?name" by force
    then have "set (new_states c) \<subseteq> set (AList.update ?name (''q'' @ str_nat (state_counter c)) (new_states c))"
      using update_other by fast
    with None show ?thesis by (auto simp: get_state_name_def identifiers_def)
  next
    case (Some ident)
    then show ?thesis by (simp add: get_state_name_def)
  qed
  show "fst (get_state_name xs c) \<in> identifiers (snd (get_state_name xs c))"
  proof (cases "map_of (new_states c) ?name")
    case None
    then show ?thesis
      using update_mem [of ?name "''q'' @ str_nat (state_counter c)" "new_states c"]
      by (force simp: get_state_name_def identifiers_def)
  next
    case (Some ident)
    then have "(?name, ident) \<in> set (new_states c)" by (rule map_of_SomeD)
    with Some show ?thesis by (force simp: get_state_name_def identifiers_def)
  qed
qed

lemma get_state_name_new:
  "identifiers (snd (get_state_name xs c)) \<subseteq>
     insert (''q'' @ str_nat (state_counter c)) (identifiers c)"
  "fst ` set (new_states (snd (get_state_name xs c))) \<subseteq>
     insert (join_comma (sort xs)) (fst ` set (new_states c))"
  using set_update_subset [of "join_comma (sort xs)" "''q'' @ str_nat (state_counter c)" "new_states c"]
  by (auto simp: get_state_name_def identifiers_def Let_def dom_update split: option.splits)

lemma get_state_name_distinct:
  "distinct (map fst (new_states c)) \<Longrightarrow>
     distinct (map fst (new_states (snd (get_state_name xs c))))"
  by (auto simp: get_state_name_def Let_def distinct_update split: option.splits)

lemma naming_get_state_name:
  assumes "naming a c" and "join_comma (sort xs) \<in> names a"
  shows "naming a (snd (get_state_name xs c))"
proof -
  let ?c = "snd (get_state_name xs c)"
  from assms have "insert (join_comma (sort xs)) (fst ` set (new_states c)) \<subseteq> names a"
    by (simp add: naming_def)
  with get_state_name_new(2) [of xs c] have "fst ` set (new_states ?c) \<subseteq> names a"
    by (rule subset_trans)
  moreover from assms(1) have "distinct (map fst (new_states ?c))"
    by (simp add: naming_def get_state_name_distinct)
  moreover from assms(1) get_state_name_identifiers(1) [of c xs] have "fst (seed a) \<in> identifiers ?c"
    by (auto simp: naming_def)
  moreover have "\<exists>n. ident = ''q'' @ str_nat n" if "ident \<in> identifiers ?c" for ident
  proof -
    from that get_state_name_new(1) [of xs c]
    consider "ident = ''q'' @ str_nat (state_counter c)" | "ident \<in> identifiers c" by blast
    then show ?thesis
    proof cases
      case 1
      then show ?thesis by blast
    next
      case 2
      with assms(1) show ?thesis by (simp add: naming_def)
    qed
  qed
  ultimately show ?thesis by (simp add: naming_def)
qed

lemma naming_cong: "new_states c' = new_states c \<Longrightarrow> naming a c' = naming a c"
  by (simp add: naming_def identifiers_def)

lemma identifiers_cong: "new_states c' = new_states c \<Longrightarrow> identifiers c' = identifiers c"
  by (simp add: identifiers_def)

lemma symbol_step_empty:
  "gather a symbol cs {} = {} \<Longrightarrow> symbol_step a current cs symbol c = c"
  by (simp add: symbol_step_def)

lemma symbol_step_nonempty:
  assumes "gather a symbol cs {} \<noteq> {}"
  shows "\<exists>ident c1 r.
           get_state_name (sorted_list_of_set (gather a symbol cs {})) c = (ident, c1) \<and>
           r = (case map_of (dfa_transitions c) current of None \<Rightarrow> [] | Some r0 \<Rightarrow> r0) \<and>
           new_states (symbol_step a current cs symbol c) = new_states c1 \<and>
           processed_states (symbol_step a current cs symbol c) = processed_states c \<and>
           dfa_final_states (symbol_step a current cs symbol c) = dfa_final_states c \<and>
           dfa_transitions (symbol_step a current cs symbol c) =
             AList.update current (AList.update symbol (PStr ident) r) (dfa_transitions c) \<and>
           states_to_process (symbol_step a current cs symbol c) =
             states_to_process c @ (if ident \<notin> processed_states c then [ident] else [])"
proof -
  obtain ident c1 where g: "get_state_name (sorted_list_of_set (gather a symbol cs {})) c = (ident, c1)"
    by (cases "get_state_name (sorted_list_of_set (gather a symbol cs {})) c")
  from g have c1: "c1 = snd (get_state_name (sorted_list_of_set (gather a symbol cs {})) c)"
    by simp
  have f: "dfa_transitions c1 = dfa_transitions c" "dfa_final_states c1 = dfa_final_states c"
    "states_to_process c1 = states_to_process c" "processed_states c1 = processed_states c"
    unfolding c1 by (rule get_state_name_fields)+
  show ?thesis
    using assms g f by (simp add: symbol_step_def Let_def)
qed

lemma symbol_step_fields:
  "processed_states (symbol_step a current cs symbol c) = processed_states c"
  "dfa_final_states (symbol_step a current cs symbol c) = dfa_final_states c"
  using symbol_step_nonempty [of a symbol cs c current] symbol_step_empty [of a symbol cs current c]
  by (cases "gather a symbol cs {} = {}"; auto)+

lemma symbol_step_pushes:
  "\<exists>pushed. states_to_process (symbol_step a current cs symbol c) = states_to_process c @ pushed \<and>
            (\<forall>x \<in> set pushed. x \<notin> processed_states c)"
proof (cases "gather a symbol cs {} = {}")
  case True
  then show ?thesis by (simp add: symbol_step_empty)
next
  case False
  from symbol_step_nonempty [OF this, of c current] obtain ident where
    "states_to_process (symbol_step a current cs symbol c) =
       states_to_process c @ (if ident \<notin> processed_states c then [ident] else [])"
    by blast
  then show ?thesis by (cases "ident \<in> processed_states c") auto
qed

lemma symbol_step_identifiers:
  "identifiers c \<subseteq> identifiers (symbol_step a current cs symbol c)"
proof (cases "gather a symbol cs {} = {}")
  case True
  then show ?thesis by (simp add: symbol_step_empty)
next
  case False
  from symbol_step_nonempty [OF this, of c current] obtain ident c1 where
    g: "get_state_name (sorted_list_of_set (gather a symbol cs {})) c = (ident, c1)" and
    n: "new_states (symbol_step a current cs symbol c) = new_states c1"
    by blast
  from g get_state_name_identifiers(1) [of c "sorted_list_of_set (gather a symbol cs {})"]
  have "identifiers c \<subseteq> identifiers c1" by simp
  with identifiers_cong [OF n] show ?thesis by simp
qed

lemma symbol_step_naming:
  assumes "naming a c"
  shows "naming a (symbol_step a current cs symbol c)"
proof (cases "gather a symbol cs {} = {}")
  case True
  with assms show ?thesis by (simp add: symbol_step_empty)
next
  case False
  from symbol_step_nonempty [OF this, of c current] obtain ident c1 where
    g: "get_state_name (sorted_list_of_set (gather a symbol cs {})) c = (ident, c1)" and
    n: "new_states (symbol_step a current cs symbol c) = new_states c1"
    by blast
  from naming_get_state_name [OF assms gather_name, of symbol cs] g have "naming a c1" by simp
  with naming_cong [OF n] show ?thesis by simp
qed

lemma symbol_step_pending:
  assumes "pending c" and "current \<in> processed_states c"
  shows "pending (symbol_step a current cs symbol c)"
proof (cases "gather a symbol cs {} = {}")
  case True
  with assms show ?thesis by (simp add: symbol_step_empty)
next
  case False
  let ?c = "symbol_step a current cs symbol c"
  from symbol_step_nonempty [OF False, of c current] obtain ident c1 r where
    g: "get_state_name (sorted_list_of_set (gather a symbol cs {})) c = (ident, c1)" and
    n: "new_states ?c = new_states c1" and
    p: "processed_states ?c = processed_states c" and
    f: "dfa_final_states ?c = dfa_final_states c" and
    t: "dfa_transitions ?c =
          AList.update current (AList.update symbol (PStr ident) r) (dfa_transitions c)" and
    s: "states_to_process ?c =
          states_to_process c @ (if ident \<notin> processed_states c then [ident] else [])"
    by blast
  from g get_state_name_identifiers [where c = c and xs = "sorted_list_of_set (gather a symbol cs {})"]
  have "identifiers c \<subseteq> identifiers c1" "ident \<in> identifiers c1" by simp_all
  with identifiers_cong [OF n] have i: "identifiers c \<subseteq> identifiers ?c" "ident \<in> identifiers ?c"
    by simp_all
  from assms i have "processed_states ?c \<subseteq> identifiers ?c" by (auto simp: p pending_def)
  moreover from assms i have "set (states_to_process ?c) \<subseteq> identifiers ?c"
    by (auto simp: s pending_def)
  moreover from assms have "dfa_final_states ?c \<subseteq> processed_states ?c"
    by (simp add: p f pending_def)
  moreover from assms have "fst ` set (dfa_transitions ?c) \<subseteq> processed_states ?c"
    by (auto simp: p t dom_update pending_def)
  ultimately show ?thesis by (simp add: pending_def)
qed

lemma recorded_row:
  assumes "recorded a c"
  shows "distinct (map fst (case map_of (dfa_transitions c) current of None \<Rightarrow> [] | Some r0 \<Rightarrow> r0))"
    and "\<forall>(symbol, v) \<in> set (case map_of (dfa_transitions c) current of None \<Rightarrow> [] | Some r0 \<Rightarrow> r0).
           symbol \<in> set (alphabet a) \<and> (\<exists>ident \<in> identifiers c. v = PStr ident)"
proof -
  show "distinct (map fst (case map_of (dfa_transitions c) current of None \<Rightarrow> [] | Some r0 \<Rightarrow> r0))"
  proof (cases "map_of (dfa_transitions c) current")
    case None
    then show ?thesis by simp
  next
    case (Some r0)
    then have "(current, r0) \<in> set (dfa_transitions c)" by (rule map_of_SomeD)
    with assms Some show ?thesis by (auto simp: recorded_def)
  qed
  show "\<forall>(symbol, v) \<in> set (case map_of (dfa_transitions c) current of None \<Rightarrow> [] | Some r0 \<Rightarrow> r0).
           symbol \<in> set (alphabet a) \<and> (\<exists>ident \<in> identifiers c. v = PStr ident)"
  proof (cases "map_of (dfa_transitions c) current")
    case None
    then show ?thesis by simp
  next
    case (Some r0)
    then have "(current, r0) \<in> set (dfa_transitions c)" by (rule map_of_SomeD)
    with assms Some show ?thesis by (auto simp: recorded_def)
  qed
qed

lemma symbol_step_recorded:
  assumes "recorded a c" and "symbol \<in> set (alphabet a)"
  shows "recorded a (symbol_step a current cs symbol c)"
proof (cases "gather a symbol cs {} = {}")
  case True
  with assms show ?thesis by (simp add: symbol_step_empty)
next
  case False
  let ?c = "symbol_step a current cs symbol c"
  from symbol_step_nonempty [OF False, of c current] obtain ident c1 r where
    g: "get_state_name (sorted_list_of_set (gather a symbol cs {})) c = (ident, c1)" and
    r: "r = (case map_of (dfa_transitions c) current of None \<Rightarrow> [] | Some r0 \<Rightarrow> r0)" and
    n: "new_states ?c = new_states c1" and
    t: "dfa_transitions ?c =
          AList.update current (AList.update symbol (PStr ident) r) (dfa_transitions c)"
    by blast
  from g get_state_name_identifiers [where c = c and xs = "sorted_list_of_set (gather a symbol cs {})"]
  have "identifiers c \<subseteq> identifiers c1" "ident \<in> identifiers c1" by simp_all
  with identifiers_cong [OF n] have i: "identifiers c \<subseteq> identifiers ?c" "ident \<in> identifiers ?c"
    by simp_all
  from recorded_row [OF assms(1), of current] have
    dr: "distinct (map fst r)" and
    er: "\<forall>(symbol, v) \<in> set r. symbol \<in> set (alphabet a) \<and> (\<exists>ident \<in> identifiers c. v = PStr ident)"
    unfolding r by blast+
  let ?r = "AList.update symbol (PStr ident) r"
  have dr': "distinct (map fst ?r)" by (rule distinct_update [OF dr])
  have er': "\<forall>(symbol, v) \<in> set ?r.
               symbol \<in> set (alphabet a) \<and> (\<exists>ident \<in> identifiers ?c. v = PStr ident)"
  proof -
    have "x \<in> set (alphabet a) \<and> (\<exists>ident \<in> identifiers ?c. v = PStr ident)"
      if "(x, v) \<in> set ?r" for x v
    proof -
      from that set_update_subset [of symbol "PStr ident" r]
      consider "(x, v) = (symbol, PStr ident)" | "(x, v) \<in> set r" by blast
      then show ?thesis
      proof cases
        case 1
        with assms(2) i(2) show ?thesis by simp
      next
        case 2
        with er i(1) show ?thesis by blast
      qed
    qed
    then show ?thesis by blast
  qed
  have "distinct (map fst (dfa_transitions ?c))"
    unfolding t using assms(1) by (simp add: recorded_def distinct_update)
  moreover have "distinct (map fst r0) \<and>
      (\<forall>(symbol, v) \<in> set r0. symbol \<in> set (alphabet a) \<and> (\<exists>ident \<in> identifiers ?c. v = PStr ident))"
    if "(origin, r0) \<in> set (dfa_transitions ?c)" for origin r0
  proof -
    from that set_update_subset [of current ?r "dfa_transitions c"]
    consider "r0 = ?r" | "(origin, r0) \<in> set (dfa_transitions c)" unfolding t by blast
    then show ?thesis
    proof cases
      case 1
      with dr' er' show ?thesis by simp
    next
      case 2
      with assms(1) have "distinct (map fst r0)" and
        e: "\<forall>(symbol, v) \<in> set r0. symbol \<in> set (alphabet a) \<and> (\<exists>ident \<in> identifiers c. v = PStr ident)"
        by (auto simp: recorded_def)
      moreover from e i(1) have
        "\<forall>(symbol, v) \<in> set r0. symbol \<in> set (alphabet a) \<and> (\<exists>ident \<in> identifiers ?c. v = PStr ident)"
        by blast
      ultimately show ?thesis by simp
    qed
  qed
  ultimately show ?thesis unfolding recorded_def by blast
qed

lemma fold_symbol_step:
  assumes "explored a c" and "current \<in> processed_states c" and "set xs \<subseteq> set (alphabet a)"
  shows "explored a (fold (symbol_step a current cs) xs c) \<and>
         processed_states (fold (symbol_step a current cs) xs c) = processed_states c \<and>
         dfa_final_states (fold (symbol_step a current cs) xs c) = dfa_final_states c \<and>
         (\<exists>pushed. states_to_process (fold (symbol_step a current cs) xs c) =
                      states_to_process c @ pushed \<and>
                    (\<forall>x \<in> set pushed. x \<notin> processed_states c))"
  using assms
proof (induction xs arbitrary: c)
  case Nil
  then show ?case by simp
next
  case (Cons x xs)
  let ?c = "symbol_step a current cs x c"
  from Cons.prems have x: "x \<in> set (alphabet a)" and xs: "set xs \<subseteq> set (alphabet a)" by simp_all
  from Cons.prems(1) have "naming a ?c" by (simp add: explored_def symbol_step_naming)
  moreover from Cons.prems(1,2) have "pending ?c" by (simp add: explored_def symbol_step_pending)
  moreover from Cons.prems(1) x have "recorded a ?c" by (simp add: explored_def symbol_step_recorded)
  ultimately have e: "explored a ?c" by (simp add: explored_def)
  have p: "processed_states ?c = processed_states c" "dfa_final_states ?c = dfa_final_states c"
    by (rule symbol_step_fields)+
  from Cons.prems(2) p have cur: "current \<in> processed_states ?c" by simp
  from symbol_step_pushes [of a current cs x c] obtain pushed1 where
    p1: "states_to_process ?c = states_to_process c @ pushed1"
        "\<forall>y \<in> set pushed1. y \<notin> processed_states c"
    by blast
  from Cons.IH [OF e cur xs] obtain pushed2 where
    ih: "explored a (fold (symbol_step a current cs) xs ?c)"
        "processed_states (fold (symbol_step a current cs) xs ?c) = processed_states ?c"
        "dfa_final_states (fold (symbol_step a current cs) xs ?c) = dfa_final_states ?c"
        "states_to_process (fold (symbol_step a current cs) xs ?c) = states_to_process ?c @ pushed2"
        "\<forall>y \<in> set pushed2. y \<notin> processed_states ?c"
    by blast
  have "states_to_process (fold (symbol_step a current cs) (x # xs) c) =
          states_to_process c @ (pushed1 @ pushed2)"
    using ih(4) p1(1) by simp
  moreover have "\<forall>y \<in> set (pushed1 @ pushed2). y \<notin> processed_states c"
    using p1(2) ih(5) p(1) by auto
  ultimately have "\<exists>pushed. states_to_process (fold (symbol_step a current cs) (x # xs) c) =
                      states_to_process c @ pushed \<and>
                    (\<forall>y \<in> set pushed. y \<notin> processed_states c)"
    by blast
  with ih(1,2,3) p show ?case by simp
qed

lemma while_body_explored:
  assumes "explored a c" and "states_to_process c \<noteq> []"
  shows "explored a (while_body a c) \<and>
         processed_states (while_body a c) =
           insert (last (states_to_process c)) (processed_states c) \<and>
         (\<exists>pushed. states_to_process (while_body a c) = butlast (states_to_process c) @ pushed \<and>
                    (\<forall>x \<in> set pushed. x \<notin> processed_states (while_body a c)))"
proof -
  define current where "current = last (states_to_process c)"
  define c1 where "c1 = c\<lparr>states_to_process := butlast (states_to_process c),
                          processed_states := insert current (processed_states c)\<rparr>"
  define c2 where "c2 = (if \<exists>state \<in> set (split_comma current). state \<in> set (final_states a)
                         then c1\<lparr>dfa_final_states := insert current (dfa_final_states c1)\<rparr>
                         else c1)"
  define c3 where "c3 = c2\<lparr>dfa_transitions := AList.update current [] (dfa_transitions c2)\<rparr>"
  have body: "while_body a c = fold (symbol_step a current (split_comma current)) (alphabet a) c3"
    by (simp add: while_body_def Let_def current_def c1_def c2_def c3_def)
  have n3: "new_states c3 = new_states c"
    by (simp add: c3_def c2_def c1_def)
  have p3: "processed_states c3 = insert current (processed_states c)"
    by (simp add: c3_def c2_def c1_def)
  have s3: "states_to_process c3 = butlast (states_to_process c)"
    by (simp add: c3_def c2_def c1_def)
  have f3: "dfa_final_states c3 \<subseteq> insert current (dfa_final_states c)"
    by (auto simp: c3_def c2_def c1_def)
  have t3: "dfa_transitions c3 = AList.update current [] (dfa_transitions c)"
    by (simp add: c3_def c2_def c1_def)
  from assms(1) have n: "naming a c" and p: "pending c" and r: "recorded a c"
    by (simp_all add: explored_def)
  have i3: "identifiers c3 = identifiers c" by (rule identifiers_cong [OF n3])
  from assms(2) have "current \<in> set (states_to_process c)" by (simp add: current_def)
  with p have cur: "current \<in> identifiers c" by (auto simp: pending_def)
  have "naming a c3" using n naming_cong [OF n3] by simp
  moreover have "pending c3"
  proof -
    from p cur have "processed_states c3 \<subseteq> identifiers c3" by (simp add: p3 i3 pending_def)
    moreover from p have "set (states_to_process c3) \<subseteq> identifiers c3"
      by (auto simp: s3 i3 pending_def dest: in_set_butlastD)
    moreover from p f3 have "dfa_final_states c3 \<subseteq> processed_states c3"
      by (auto simp: p3 pending_def)
    moreover from p have "fst ` set (dfa_transitions c3) \<subseteq> processed_states c3"
      by (auto simp: t3 p3 dom_update pending_def)
    ultimately show ?thesis by (simp add: pending_def)
  qed
  moreover have "recorded a c3"
  proof -
    have "distinct (map fst (dfa_transitions c3))"
      using r by (simp add: t3 recorded_def distinct_update)
    moreover have "distinct (map fst r0) \<and>
        (\<forall>(symbol, v) \<in> set r0. symbol \<in> set (alphabet a) \<and> (\<exists>ident \<in> identifiers c3. v = PStr ident))"
      if "(origin, r0) \<in> set (dfa_transitions c3)" for origin r0
    proof -
      from that set_update_subset [of current "[]" "dfa_transitions c"]
      consider "r0 = []" | "(origin, r0) \<in> set (dfa_transitions c)" unfolding t3 by blast
      then show ?thesis
      proof cases
        case 1
        then show ?thesis by simp
      next
        case 2
        with r show ?thesis by (auto simp: recorded_def i3)
      qed
    qed
    ultimately show ?thesis unfolding recorded_def by blast
  qed
  ultimately have e3: "explored a c3" by (simp add: explored_def)
  have c3cur: "current \<in> processed_states c3" by (simp add: p3)
  from fold_symbol_step [OF e3 c3cur subset_refl, of "split_comma current"] obtain pushed where
    "explored a (while_body a c)"
    "processed_states (while_body a c) = processed_states c3"
    "states_to_process (while_body a c) = states_to_process c3 @ pushed"
    "\<forall>x \<in> set pushed. x \<notin> processed_states c3"
    unfolding body by blast
  then show ?thesis by (auto simp: p3 s3 current_def)
qed

lemma finite_identifiers: "finite (identifiers c)"
  by (simp add: identifiers_def)

lemma card_processed:
  assumes "explored a c"
  shows "card (processed_states c) \<le> card (names a)"
proof -
  from assms have sub: "processed_states c \<subseteq> identifiers c"
    and keys: "fst ` set (new_states c) \<subseteq> names a"
    and d: "distinct (map fst (new_states c))"
    by (simp_all add: explored_def pending_def naming_def)
  from sub have "card (processed_states c) \<le> card (identifiers c)"
    by (rule card_mono [OF finite_identifiers])
  also have "\<dots> \<le> card (set (new_states c))"
    unfolding identifiers_def by (rule card_image_le) simp
  also have "\<dots> \<le> length (new_states c)" by (rule card_length)
  also have "\<dots> = card (set (map fst (new_states c)))"
    using distinct_card [OF d] by simp
  also have "\<dots> \<le> card (names a)"
    using keys by (simp add: card_mono finite_names)
  finally show ?thesis .
qed

lemma while_body_decreases:
  assumes "explored a c" and "states_to_process c \<noteq> []"
  shows "(while_body a c, c) \<in> measures [unprocessed a, stale]"
proof -
  let ?cur = "last (states_to_process c)"
  from while_body_explored [OF assms] obtain pushed where
    e: "explored a (while_body a c)" and
    p: "processed_states (while_body a c) = insert ?cur (processed_states c)" and
    s: "states_to_process (while_body a c) = butlast (states_to_process c) @ pushed" and
    n: "\<forall>x \<in> set pushed. x \<notin> processed_states (while_body a c)"
    by blast
  from assms(1) have "processed_states c \<subseteq> identifiers c" by (simp add: explored_def pending_def)
  then have fin: "finite (processed_states c)" by (rule finite_subset [OF _ finite_identifiers])
  show ?thesis
  proof (cases "?cur \<in> processed_states c")
    case False
    with fin have "card (processed_states (while_body a c)) = Suc (card (processed_states c))"
      by (simp add: p)
    moreover from card_processed [OF e] have "card (processed_states (while_body a c)) \<le> card (names a)" .
    ultimately have "unprocessed a (while_body a c) < unprocessed a c"
      by (simp add: unprocessed_def)
    then show ?thesis by simp
  next
    case True
    then have p': "processed_states (while_body a c) = processed_states c"
      by (auto simp: p)
    from n have "filter (\<lambda>x. x \<in> processed_states c) pushed = []"
      by (auto simp: p' filter_empty_conv)
    then have "stale (while_body a c) =
        length (filter (\<lambda>x. x \<in> processed_states c) (butlast (states_to_process c)))"
      by (simp add: stale_def s p')
    moreover from assms(2) have "states_to_process c = butlast (states_to_process c) @ [?cur]"
      by simp
    then have "stale c =
        length (filter (\<lambda>x. x \<in> processed_states c) (butlast (states_to_process c) @ [?cur]))"
      by (simp add: stale_def)
    with True have "stale c =
        Suc (length (filter (\<lambda>x. x \<in> processed_states c) (butlast (states_to_process c))))"
      by simp
    ultimately have "stale (while_body a c) < stale c" by simp
    with p' show ?thesis by (simp add: unprocessed_def)
  qed
qed

lemma while_loop_total:
  "explored a c \<Longrightarrow>
     \<exists>c'. while_loop a c = Some c' \<and> explored a c' \<and> states_to_process c' = []"
proof (induction c rule: wf_induct_rule [OF wf_measures [of "[unprocessed a, stale]"]])
  case (1 c)
  show ?case
  proof (cases "states_to_process c = []")
    case True
    with 1(2) show ?thesis by (simp add: while_loop.simps)
  next
    case False
    from while_body_decreases [OF 1(2) False] while_body_explored [OF 1(2) False]
    have "\<exists>c'. while_loop a (while_body a c) = Some c' \<and> explored a c' \<and> states_to_process c' = []"
      by (intro 1(1)) auto
    with False show ?thesis by (subst while_loop.simps) simp
  qed
qed

lemma str_nat_0: "str_nat 0 = ''0''"
  by (simp add: str_nat.simps)

lemma seed_eq:
  "seed a =
     (''q0'',
      \<lparr>new_states = [(join_comma (sort [initial_state a]), ''q0'')], state_counter = 1,
       dfa_transitions = [], dfa_final_states = {}, states_to_process = [''q0''],
       processed_states = {}\<rparr>)"
  by (simp add: seed_def get_state_name_def str_nat_0)

lemma seed_explored: "explored a (snd (seed a))"
proof -
  have "\<exists>n. ''q0'' = ''q'' @ str_nat n"
    using str_nat_0 by (intro exI [of _ 0]) simp
  then show ?thesis
    unfolding explored_def naming_def pending_def recorded_def
    by (simp add: seed_eq identifiers_def names_def)
qed

lemma convert_to_dfa_total:
  "\<exists>c. while_loop a (snd (seed a)) = Some c \<and> explored a c \<and> states_to_process c = [] \<and>
       convert_to_dfa a =
         Some \<lparr>alphabet = alphabet a, states = map snd (new_states c),
               final_states = sorted_list_of_set (dfa_final_states c),
               initial_state = ''q0'', transitions = dfa_transitions c\<rparr>"
proof -
  from while_loop_total [OF seed_explored] obtain c where
    "while_loop a (snd (seed a)) = Some c" "explored a c" "states_to_process c = []"
    by blast
  then show ?thesis by (simp add: convert_to_dfa_def seed_eq)
qed

subsection \<open>The claims about the conversion\<close>

lemma read_transitions_lengths:
  "read_transitions ls ts = Inr ts' \<Longrightarrow> \<forall>parts \<in> set ls. length parts = 3"
proof (induction ls arbitrary: ts)
  case Nil
  then show ?case by simp
next
  case (Cons parts ls)
  have "length parts = 3"
  proof (rule ccontr)
    assume "length parts \<noteq> 3"
    from read_transition_format [OF this] Cons.prems show False by simp
  qed
  moreover from Cons.prems obtain t1 where "read_transitions ls t1 = Inr ts'"
    by (auto split: sum.splits)
  from Cons.IH [OF this] have "\<forall>parts \<in> set ls. length parts = 3" .
  ultimately show ?case by simp
qed

lemma load_automata_invariants:
  assumes "load_automata f = Inr a"
  shows "invariants a"
proof -
  from assms have b: "load_body f = Inr a"
    by (auto simp: load_automata_def split: sum.splits error.splits)
  then obtain ts0 where "read_transitions (transition_lines f) [] = Inr ts0"
    by (auto simp: load_body_def split: sum.splits)
  then have "\<forall>parts \<in> set (transition_lines f). length parts = 3"
    by (rule read_transitions_lengths)
  from load_body_cases [OF this] obtain ts where
    ts: "loaded ts" and
    body: "load_body f =
             (if initial_state_line f \<notin> set (states_line f)
              then Inl (ValueError Estado_inicial_ausente)
              else if \<not> set (final_states_line f) \<subseteq> set (states_line f)
              then Inl (ValueError Estado_final_ausente)
              else case check_origins (alphabet_line f) (states_line f) ts of
                     Some e \<Rightarrow> Inl e
                   | None \<Rightarrow>
                       Inr \<lparr>alphabet = alphabet_line f, states = states_line f,
                            final_states = final_states_line f,
                            initial_state = initial_state_line f, transitions = ts\<rparr>)"
    by blast
  from b body have i: "initial_state_line f \<in> set (states_line f)"
    and fs: "set (final_states_line f) \<subseteq> set (states_line f)"
    and chk: "check_origins (alphabet_line f) (states_line f) ts = None"
    and a: "a = \<lparr>alphabet = alphabet_line f, states = states_line f,
                  final_states = final_states_line f,
                  initial_state = initial_state_line f, transitions = ts\<rparr>"
    by (auto split: if_splits option.splits)
  from chk have sub: "origins_of ts \<subseteq> set (states_line f)"
      "symbols_of ts \<subseteq> set (alphabet_line f)" "destinations_of ts \<subseteq> set (states_line f)"
    by (simp_all add: check_origins_None)
  from loaded_invariants [OF ts i fs sub] a show ?thesis by simp
qed

lemma convert_to_dfa_facts:
  "\<exists>c. explored a c \<and>
       convert_to_dfa a =
         Some \<lparr>alphabet = alphabet a, states = map snd (new_states c),
               final_states = sorted_list_of_set (dfa_final_states c),
               initial_state = ''q0'', transitions = dfa_transitions c\<rparr>"
  using convert_to_dfa_total [of a] by blast

lemma explored_final_states:
  assumes "explored a c"
  shows "set (sorted_list_of_set (dfa_final_states c)) = dfa_final_states c"
proof -
  from assms have "dfa_final_states c \<subseteq> identifiers c"
    by (auto simp: explored_def pending_def)
  then have "finite (dfa_final_states c)" by (rule finite_subset [OF _ finite_identifiers])
  then show ?thesis by simp
qed

lemma explored_invariants:
  assumes "explored a c"
  shows "invariants \<lparr>alphabet = alphabet a, states = map snd (new_states c),
               final_states = sorted_list_of_set (dfa_final_states c),
               initial_state = ''q0'', transitions = dfa_transitions c\<rparr>"
proof -
  from assms have n: "naming a c" and p: "pending c" and r: "recorded a c"
    by (simp_all add: explored_def)
  have st: "set (map snd (new_states c)) = identifiers c" by (simp add: identifiers_def)
  from n have "''q0'' \<in> identifiers c" by (simp add: naming_def seed_eq)
  moreover from p have "dfa_final_states c \<subseteq> identifiers c" by (auto simp: pending_def)
  moreover have "origin \<in> identifiers c" if "(origin, r0) \<in> set (dfa_transitions c)" for origin r0
  proof -
    from that have "origin \<in> fst ` set (dfa_transitions c)" by force
    with p show ?thesis by (auto simp: pending_def)
  qed
  moreover have "symbol \<in> set (alphabet a) \<and> set (destinations v) \<subseteq> identifiers c"
    if "(origin, r0) \<in> set (dfa_transitions c)" "(symbol, v) \<in> set r0" for origin r0 symbol v
  proof -
    from r that have "symbol \<in> set (alphabet a) \<and> (\<exists>ident \<in> identifiers c. v = PStr ident)"
      by (fastforce simp: recorded_def)
    then show ?thesis by auto
  qed
  ultimately show ?thesis
    unfolding invariants_def identifiers_def
    by (simp add: explored_final_states [OF assms]) blast
qed

lemma convert_to_dfa_invariants:
  assumes "convert_to_dfa a = Some d"
  shows "invariants d"
proof -
  from convert_to_dfa_facts [of a] obtain c where "explored a c"
    "convert_to_dfa a =
         Some \<lparr>alphabet = alphabet a, states = map snd (new_states c),
               final_states = sorted_list_of_set (dfa_final_states c),
               initial_state = ''q0'', transitions = dfa_transitions c\<rparr>"
    by blast
  with assms explored_invariants [of a c] show ?thesis by simp
qed

lemma convert_example: "convert_to_dfa example_automaton = Some example_dfa"
  by code_simp

text \<open>
  Claim C3. Every automaton that \<open>load_automata\<close> returns and every automaton that
  \<open>convert_to_dfa\<close> returns satisfies the four structural invariants: the initial
  state is a state, every final state is a state, every origin and every destination of a
  transition is a state, and every symbol of a transition is in the alphabet.
\<close>

theorem structural_invariants:
  "(load_automata f = Inr a \<longrightarrow> invariants a) \<and>
   (convert_to_dfa a' = Some d \<longrightarrow> invariants d)"
  using load_automata_invariants convert_to_dfa_invariants by blast

theorem structural_invariants_witness:
  "load_automata example_file = Inr example_automaton \<and> invariants example_automaton \<and>
   convert_to_dfa example_automaton = Some example_dfa \<and> invariants example_dfa"
  using structural_invariants [of example_file example_automaton example_automaton example_dfa]
    load_example convert_example
  by simp

lemma explored_at_most_one:
  assumes "explored a c"
  shows "at_most_one_destination \<lparr>alphabet = alphabet a, states = map snd (new_states c),
               final_states = sorted_list_of_set (dfa_final_states c),
               initial_state = ''q0'', transitions = dfa_transitions c\<rparr>"
proof -
  from assms have r: "recorded a c" by (simp add: explored_def)
  have "distinct (map fst r0) \<and> (\<forall>(symbol, v) \<in> set r0. length (destinations v) \<le> 1)"
    if "(origin, r0) \<in> set (dfa_transitions c)" for origin r0
  proof -
    from r that have "distinct (map fst r0)" and
      e: "\<forall>(symbol, v) \<in> set r0. \<exists>ident \<in> identifiers c. v = PStr ident"
      by (fastforce simp: recorded_def)+
    from e have "\<forall>(symbol, v) \<in> set r0. length (destinations v) \<le> 1" by fastforce
    with \<open>distinct (map fst r0)\<close> show ?thesis by simp
  qed
  moreover from r have "distinct (map fst (dfa_transitions c))" by (simp add: recorded_def)
  ultimately show ?thesis unfolding at_most_one_destination_def by simp blast
qed

text \<open>
  Claim C6. For every input automaton \<open>convert_to_dfa\<close> returns an automaton with the
  alphabet of the input, whose transition table gives each pair of a state and a symbol at
  most one destination.
\<close>

theorem convert_to_dfa_deterministic:
  "\<exists>d. convert_to_dfa a = Some d \<and> alphabet d = alphabet a \<and> at_most_one_destination d"
proof -
  from convert_to_dfa_facts [of a] obtain c where c: "explored a c"
    "convert_to_dfa a =
         Some \<lparr>alphabet = alphabet a, states = map snd (new_states c),
               final_states = sorted_list_of_set (dfa_final_states c),
               initial_state = ''q0'', transitions = dfa_transitions c\<rparr>"
    by blast
  with explored_at_most_one [OF c(1)] show ?thesis by simp
qed

theorem convert_to_dfa_deterministic_witness:
  "convert_to_dfa example_automaton = Some example_dfa \<and>
   alphabet example_dfa = alphabet example_automaton \<and>
   at_most_one_destination example_dfa"
  using convert_to_dfa_deterministic [of example_automaton] convert_example by auto

lemma fold_symbol_step_pushes:
  "processed_states (fold (symbol_step a current cs) xs c) = processed_states c \<and>
   (\<exists>pushed. states_to_process (fold (symbol_step a current cs) xs c) =
                states_to_process c @ pushed \<and>
              (\<forall>x \<in> set pushed. x \<notin> processed_states c))"
proof (induction xs arbitrary: c)
  case Nil
  then show ?case by simp
next
  case (Cons x xs)
  let ?c = "symbol_step a current cs x c"
  have p: "processed_states ?c = processed_states c" by (rule symbol_step_fields)
  from symbol_step_pushes [of a current cs x c] obtain pushed1 where
    p1: "states_to_process ?c = states_to_process c @ pushed1"
        "\<forall>y \<in> set pushed1. y \<notin> processed_states c"
    by blast
  from Cons.IH [of ?c] obtain pushed2 where
    ih: "processed_states (fold (symbol_step a current cs) xs ?c) = processed_states ?c"
        "states_to_process (fold (symbol_step a current cs) xs ?c) = states_to_process ?c @ pushed2"
        "\<forall>y \<in> set pushed2. y \<notin> processed_states ?c"
    by blast
  have "states_to_process (fold (symbol_step a current cs) (x # xs) c) =
          states_to_process c @ (pushed1 @ pushed2)"
    using ih(2) p1(1) by simp
  moreover have "\<forall>y \<in> set (pushed1 @ pushed2). y \<notin> processed_states c"
    using p1(2) ih(3) p by auto
  ultimately have "\<exists>pushed. states_to_process (fold (symbol_step a current cs) (x # xs) c) =
                      states_to_process c @ pushed \<and>
                    (\<forall>y \<in> set pushed. y \<notin> processed_states c)"
    by blast
  with ih(1) p show ?case by simp
qed

lemma while_body_pushes:
  "\<exists>pushed. states_to_process (while_body a c) = butlast (states_to_process c) @ pushed \<and>
            (\<forall>x \<in> set pushed. x \<notin> processed_states (while_body a c))"
proof -
  define current where "current = last (states_to_process c)"
  define c1 where "c1 = c\<lparr>states_to_process := butlast (states_to_process c),
                          processed_states := insert current (processed_states c)\<rparr>"
  define c2 where "c2 = (if \<exists>state \<in> set (split_comma current). state \<in> set (final_states a)
                         then c1\<lparr>dfa_final_states := insert current (dfa_final_states c1)\<rparr>
                         else c1)"
  define c3 where "c3 = c2\<lparr>dfa_transitions := AList.update current [] (dfa_transitions c2)\<rparr>"
  have body: "while_body a c = fold (symbol_step a current (split_comma current)) (alphabet a) c3"
    by (simp add: while_body_def Let_def current_def c1_def c2_def c3_def)
  have s3: "states_to_process c3 = butlast (states_to_process c)"
    by (simp add: c3_def c2_def c1_def)
  from fold_symbol_step_pushes [of a current "split_comma current" "alphabet a" c3]
  show ?thesis unfolding body s3 by auto
qed

text \<open>
  Claim C8, as the code has it. \<open>convert_to_dfa\<close> terminates on every input
  automaton. One round of its loop takes the last identifier off the worklist and appends
  only identifiers that are not in \<open>processed_states\<close>: the set of processed
  identifiers is the visited check, not the dictionary of canonical keys, so an identifier
  that waits on the worklist can be appended again.
\<close>

theorem convert_to_dfa_terminates:
  "(\<exists>d. convert_to_dfa a = Some d) \<and>
   (states_to_process c \<noteq> [] \<longrightarrow>
      (\<exists>pushed. states_to_process (while_body a c) = butlast (states_to_process c) @ pushed \<and>
                 (\<forall>x \<in> set pushed. x \<notin> processed_states (while_body a c))))"
  using convert_to_dfa_facts [of a] while_body_pushes [of a c] by blast

theorem convert_to_dfa_terminates_witness:
  "convert_to_dfa example_automaton = Some example_dfa \<and>
   states_to_process (snd (seed example_automaton)) = [''q0''] \<and>
   states_to_process (while_body example_automaton (snd (seed example_automaton))) =
     [''q1'', ''q2''] \<and>
   processed_states (while_body example_automaton (snd (seed example_automaton))) = {''q0''}"
proof -
  have "states_to_process (snd (seed example_automaton)) = [''q0'']"
    by (simp add: seed_eq)
  moreover have "states_to_process (while_body example_automaton (snd (seed example_automaton))) =
     [''q1'', ''q2'']" by code_simp
  moreover have "processed_states (while_body example_automaton (snd (seed example_automaton))) = {''q0''}"
    by code_simp
  ultimately show ?thesis
    using convert_to_dfa_terminates [of example_automaton "snd (seed example_automaton)"]
      convert_example
    by simp
qed

text \<open>
  The claim C8 as the specification states it fails: when two symbols lead from the initial
  state to the same state, the first round of the loop leaves the identifier of that state
  on the worklist twice.
\<close>

theorem worklist_repeats:
  "load_automata twice_file = Inr twice_automaton \<and>
   states_to_process (while_body twice_automaton (snd (seed twice_automaton))) = [''q1'', ''q1''] \<and>
   \<not> distinct (states_to_process (while_body twice_automaton (snd (seed twice_automaton))))"
  by code_simp

lemma symbol_step_keeps_current:
  assumes "map_of (dfa_transitions c) current \<noteq> None"
  shows "map_of (dfa_transitions (symbol_step a current cs symbol c)) current \<noteq> None"
proof (cases "gather a symbol cs {} = {}")
  case True
  with assms show ?thesis by (simp add: symbol_step_empty)
next
  case False
  from symbol_step_nonempty [OF False, of c current] obtain ident r where
    "dfa_transitions (symbol_step a current cs symbol c) =
       AList.update current (AList.update symbol (PStr ident) r) (dfa_transitions c)"
    by blast
  then show ?thesis by (simp add: update_conv')
qed

lemma fold_symbol_step_keeps_current:
  "map_of (dfa_transitions (fold (symbol_step a current cs) xs
      (c\<lparr>dfa_transitions := AList.update current [] (dfa_transitions c)\<rparr>))) current \<noteq> None"
proof -
  have "map_of (dfa_transitions c') current \<noteq> None \<Longrightarrow>
        map_of (dfa_transitions (fold (symbol_step a current cs) xs c')) current \<noteq> None" for c'
  proof (induction xs arbitrary: c')
    case Nil
    then show ?case by simp
  next
    case (Cons x xs)
    from Cons.IH [OF symbol_step_keeps_current [OF Cons.prems]] show ?case by simp
  qed
  then show ?thesis by (simp add: update_conv')
qed

text \<open>
  Claim C9. On an automaton whose transition entries are non-empty sequences, neither
  operation raises: \<open>process\<close> returns one of ACEITA, REJEITA and INVALIDA for each
  word, and \<open>convert_to_dfa\<close> returns an automaton.
\<close>

theorem process_and_convert_total:
  assumes "nonempty_destinations a"
  shows "(\<exists>rs. process a ws = Inr rs \<and> length rs = length ws \<and>
               set rs \<subseteq> {''ACEITA'', ''REJEITA'', ''INVALIDA''}) \<and>
         (\<exists>d. convert_to_dfa a = Some d)"
proof -
  have "process a ws = Inr (map (\<lambda>w. outcome_text (classify a w)) ws)"
    by (simp add: process_def for_words_classify [OF assms])
  moreover have "outcome_text x \<in> {''ACEITA'', ''REJEITA'', ''INVALIDA''}" for x
    by (cases x) simp_all
  ultimately have "\<exists>rs. process a ws = Inr rs \<and> length rs = length ws \<and>
               set rs \<subseteq> {''ACEITA'', ''REJEITA'', ''INVALIDA''}"
    by auto
  with convert_to_dfa_facts [of a] show ?thesis by blast
qed

theorem process_and_convert_total_witness:
  "nonempty_destinations example_automaton \<and>
   process example_automaton [[''c'', ''a''], [''a'', ''a'', ''b'']] = Inr [''INVALIDA'', ''REJEITA''] \<and>
   convert_to_dfa example_automaton = Some example_dfa"
proof -
  have "process example_automaton [[''c'', ''a''], [''a'', ''a'', ''b'']] = Inr [''INVALIDA'', ''REJEITA'']"
    by code_simp
  with process_and_convert_total [OF nonempty_example, of "[[''c'', ''a''], [''a'', ''a'', ''b'']]"]
    nonempty_example convert_example
  show ?thesis by simp
qed

lemma explored_step:
  assumes "explored a c" and "map_of (dfa_transitions c) q = Some r0" and "map_of r0 x = Some v"
  shows "\<exists>n. v = PStr (''q'' @ str_nat n) \<and> ''q'' @ str_nat n \<in> identifiers c \<and>
             x \<in> set (alphabet a)"
proof -
  from assms(2) have "(q, r0) \<in> set (dfa_transitions c)" by (rule map_of_SomeD)
  moreover from assms(3) have "(x, v) \<in> set r0" by (rule map_of_SomeD)
  moreover from assms(1) have "recorded a c" by (simp add: explored_def)
  ultimately obtain ident where i: "x \<in> set (alphabet a)" "ident \<in> identifiers c" "v = PStr ident"
    by (fastforce simp: recorded_def)
  from assms(1) i(2) obtain n where "ident = ''q'' @ str_nat n"
    by (auto simp: explored_def naming_def)
  with i show ?thesis by blast
qed

lemma explored_no_q:
  assumes "explored a c"
  shows "''q'' \<notin> identifiers c"
proof
  assume "''q'' \<in> identifiers c"
  with assms obtain n where "''q'' = ''q'' @ str_nat n" by (auto simp: explored_def naming_def)
  with str_nat_nonempty [of n] show False by simp
qed

text \<open>
  Claim C10. In an automaton returned by \<open>convert_to_dfa\<close> every transition entry is
  a single identifier stored as a string, so the step of \<open>process\<close> on a defined
  transition takes its element 0: the current state becomes the one-character string q,
  the first character of the identifier, which is not the identifier and not a state of
  the automaton at all.
\<close>

theorem process_on_converted:
  assumes "convert_to_dfa a = Some d" and "defined_transition d (current_state l) x = Some v"
  shows "\<exists>ident. v = PStr ident \<and> ident \<in> set (states d) \<and>
           symbol_body d x l = Continue (l\<lparr>current_state := [hd ident]\<rparr>) \<and>
           [hd ident] = ''q'' \<and> [hd ident] \<noteq> ident \<and> [hd ident] \<notin> set (states d)"
proof -
  from convert_to_dfa_facts [of a] assms(1) obtain c where c: "explored a c" and
    d: "d = \<lparr>alphabet = alphabet a, states = map snd (new_states c),
             final_states = sorted_list_of_set (dfa_final_states c),
             initial_state = ''q0'', transitions = dfa_transitions c\<rparr>"
    by auto
  from assms(2) obtain r0 where
    "map_of (dfa_transitions c) (current_state l) = Some r0" "map_of r0 x = Some v"
    by (auto simp: defined_transition_def d split: option.splits)
  from explored_step [OF c this] obtain n where
    n: "v = PStr (''q'' @ str_nat n)" "''q'' @ str_nat n \<in> identifiers c" "x \<in> set (alphabet a)"
    by blast
  have st: "set (states d) = identifiers c" by (simp add: d identifiers_def)
  have "index0 v = Inr ''q''" by (simp add: n(1) index0_def)
  with n(3) assms(2) have "symbol_body d x l = Continue (l\<lparr>current_state := ''q''\<rparr>)"
    by (simp add: symbol_body_cases d)
  moreover from str_nat_nonempty [of n] have "''q'' \<noteq> ''q'' @ str_nat n" by simp
  moreover from explored_no_q [OF c] have "''q'' \<notin> set (states d)" by (simp add: st)
  ultimately show ?thesis using n st by simp
qed

theorem process_on_converted_witness:
  "convert_to_dfa example_automaton = Some example_dfa \<and>
   defined_transition example_dfa ''q0'' ''a'' = Some (PStr ''q1'') \<and>
   symbol_body example_dfa ''a'' \<lparr>current_state = ''q0'', is_valid = True, results = []\<rparr> =
     Continue \<lparr>current_state = ''q'', is_valid = True, results = []\<rparr>"
proof -
  have t: "defined_transition example_dfa
             (current_state \<lparr>current_state = ''q0'', is_valid = True, results = []\<rparr>) ''a'' =
           Some (PStr ''q1'')"
    by (simp add: defined_transition_def example_dfa_def)
  from process_on_converted [OF convert_example t] convert_example t show ?thesis by simp
qed

text \<open>
  Claim C1 fails on the code. For the automaton of the docstring \<open>process\<close> accepts
  the word ab, and rejects it on the automaton that \<open>convert_to_dfa\<close> returns.
\<close>

theorem converted_language_differs:
  "load_automata example_file = Inr example_automaton \<and>
   convert_to_dfa example_automaton = Some example_dfa \<and>
   process example_automaton [[''a'', ''b'']] = Inr [''ACEITA''] \<and>
   process example_dfa [[''a'', ''b'']] = Inr [''REJEITA'']"
  by code_simp

text \<open>
  Claim C4 fails on the code. The identifier q1 is minted for the key "q0,q1", the set of
  the states q0 and q1, and the symbol a leads from that set to the non-empty set of q0 and
  q1; but the loop splits the identifier, not the key, looks for a state named q1, and
  records no transition for q1 and a.
\<close>

theorem conversion_misses_transition:
  "load_automata branching_file = Inr branching_automaton \<and>
   map_option new_states (while_loop branching_automaton (snd (seed branching_automaton))) =
     Some [(''q0'', ''q0''), (''q0,q1'', ''q1'')] \<and>
   gather branching_automaton ''a'' [''q0'', ''q1''] {} = {''q0'', ''q1''} \<and>
   convert_to_dfa branching_automaton = Some branching_dfa \<and>
   defined_transition branching_dfa ''q1'' ''a'' = None"
  by code_simp

end
